theory Spec2Isabelle
  imports Main
begin

section \<open>Strings\<close>

text \<open>
  A JavaScript string is a sequence of UTF-16 code units. The model is \<^typ>\<open>string\<close>, one
  \<^typ>\<open>char\<close> per code unit, for the code units U+0000 to U+00FF. On that range
  \<open>String.prototype.trim\<close> strips TAB, LF, VT, FF, CR, SPACE and NO-BREAK SPACE from both
  ends, and \<open>String.prototype.toLowerCase\<close> maps \<open>A\<close>..\<open>Z\<close> and U+00C0..U+00DE (without the
  multiplication sign U+00D7) to the code unit 32 above and leaves every other code unit alone.
\<close>

definition isWhiteSpace :: "char \<Rightarrow> bool" where
  "isWhiteSpace c =
     (let n = (of_char c :: nat)
      in n = 9 \<or> n = 10 \<or> n = 11 \<or> n = 12 \<or> n = 13 \<or> n = 32 \<or> n = 160)"

definition trim :: "string \<Rightarrow> string" where
  "trim s = rev (dropWhile isWhiteSpace (rev (dropWhile isWhiteSpace s)))"

definition toLowerChar :: "char \<Rightarrow> char" where
  "toLowerChar c =
     (let n = (of_char c :: nat)
      in if (65 \<le> n \<and> n \<le> 90) \<or> (192 \<le> n \<and> n \<le> 222 \<and> n \<noteq> 215)
         then char_of (n + 32) else c)"

definition toLowerCase :: "string \<Rightarrow> string" where
  "toLowerCase s = map toLowerChar s"

text \<open>\<open>s.startsWith(q)\<close> and \<open>s.includes(q)\<close>; the empty string occurs in every string.\<close>

fun startsWith :: "string \<Rightarrow> string \<Rightarrow> bool" where
  "startsWith s [] = True"
| "startsWith [] (c # q) = False"
| "startsWith (a # s) (c # q) = (a = c \<and> startsWith s q)"

fun str_includes :: "string \<Rightarrow> string \<Rightarrow> bool" where
  "str_includes [] q = (q = [])"
| "str_includes (a # s) q = (startsWith (a # s) q \<or> str_includes s q)"

text \<open>\<open>Array.prototype.findIndex\<close>, with \<open>None\<close> for the result \<open>-1\<close>.\<close>

fun findIndex :: "('a \<Rightarrow> bool) \<Rightarrow> 'a list \<Rightarrow> nat option" where
  "findIndex P [] = None"
| "findIndex P (x # xs) =
     (if P x then Some 0 else map_option Suc (findIndex P xs))"

section \<open>Data model\<close>

record Note =
  title :: string
  body :: string
  time_added :: string

text \<open>
  The values \<open>JSON.parse\<close> returns. A document on disk is a text that \<open>JSON.parse\<close> rejects
  (\<open>NotJSON\<close>) or the text of a value (\<open>Parsed v\<close>); \<open>JSON.stringify\<close> of the note array
  writes the text of \<open>notes_json notes\<close>.
\<close>

datatype json =
    JNull
  | JBool bool
  | JNum int
  | JStr string
  | JArr "json list"
  | JObj "(string \<times> json) list"

datatype document = NotJSON | Parsed json

definition note_json :: "Note \<Rightarrow> json" where
  "note_json n =
     JObj [(''title'', JStr (title n)), (''body'', JStr (body n)),
           (''time_added'', JStr (time_added n))]"

definition notes_json :: "Note list \<Rightarrow> json" where
  "notes_json notes = JArr (map note_json notes)"

text \<open>The lines the program prints, named by what they say.\<close>

datatype message =
    ReadError
  | WriteError
  | TitleEmpty
  | TitleExists string
  | BodyEmpty
  | NoteAdded
  | NoNotesFound
  | AllNotes
  | NoteEntry nat Note
  | TitleInputEmpty
  | NoNoteFound string
  | ShowNote Note
  | NoteDeleted string
  | NoteUpdated
  | Menu
  | Goodbye
  | InvalidChoice
  | TitleEmptyRetry

text \<open>
  What the program sees of the outside: the lines the user will type (\<open>stdin\<close>), the lines
  printed so far (\<open>console\<close>), the notes file (\<open>None\<close> when it does not exist), whether reading
  and writing the file succeed, what a write that fails leaves on disk (\<open>writeFileSync\<close>
  truncates the file when it opens it, so the file may be as before, cut off or missing), and
  the reading of the clock as \<open>toISOString\<close> formats it.
\<close>

record env =
  stdin :: "string list"
  console :: "message list"
  notes_file :: "document option"
  read_ok :: bool
  write_ok :: bool
  after_failed_write :: "document option"
  now :: string

text \<open>
  A call returns a value, ends the process with an exit code (\<open>process.exit\<close>), or waits
  for a line when the typed lines are used up (\<open>Blocked\<close>). \<open>readline.question\<close> takes the
  next typed line; its prompt is not recorded.
\<close>

datatype 'a outcome = Return 'a env | Exit nat env | Blocked env

definition then_do :: "'a outcome \<Rightarrow> ('a \<Rightarrow> env \<Rightarrow> 'b outcome) \<Rightarrow> 'b outcome" where
  "then_do r f = (case r of Return x e \<Rightarrow> f x e | Exit c e \<Rightarrow> Exit c e | Blocked e \<Rightarrow> Blocked e)"

definition log :: "message \<Rightarrow> env \<Rightarrow> env" where
  "log m e = e\<lparr>console := console e @ [m]\<rparr>"

definition question :: "env \<Rightarrow> string outcome" where
  "question e = (case stdin e of [] \<Rightarrow> Blocked e | l # ls \<Rightarrow> Return l (e\<lparr>stdin := ls\<rparr>))"

section \<open>Storage\<close>

definition initialNotes :: json where
  "initialNotes = JArr []"

text \<open>
  A write that fails leaves on disk what the environment says. \<open>loadNotes\<close> hands the parsed value to
  \<open>main\<close> as the note array without looking at it; the operations of the menu are modelled on
  arrays of notes.
\<close>

definition saveNotes :: "json \<Rightarrow> env \<Rightarrow> unit outcome" where
  "saveNotes v e =
     (if write_ok e then Return () (e\<lparr>notes_file := Some (Parsed v)\<rparr>)
      else Exit 1 (log WriteError (e\<lparr>notes_file := after_failed_write e\<rparr>)))"

definition loadNotes :: "env \<Rightarrow> json outcome" where
  "loadNotes e =
     (case notes_file e of
        None \<Rightarrow> then_do (saveNotes initialNotes e) (\<lambda>u e1. Return initialNotes e1)
      | Some d \<Rightarrow>
          if \<not> read_ok e then Exit 1 (log ReadError e)
          else (case d of
                  NotJSON \<Rightarrow> Exit 1 (log ReadError e)
                | Parsed v \<Rightarrow> Return v e))"

section \<open>Finding a note\<close>

definition findNoteByTitle :: "Note list \<Rightarrow> string \<Rightarrow> Note option" where
  "findNoteByTitle notes titleInput =
     (let query = toLowerCase titleInput
      in case find (\<lambda>n. toLowerCase (title n) = query) notes of
           Some n \<Rightarrow> Some n
         | None \<Rightarrow> find (\<lambda>n. str_includes (toLowerCase (title n)) query) notes)"

text \<open>
  \<open>findNoteByTitle\<close> returns a reference to an element of the array, and \<open>updateNote\<close> assigns
  through it. The elements of the array are separate objects, so the reference is the index
  of the element: \<open>findNoteByTitle_ref\<close> is \<open>findNoteByTitle\<close> returning that index.
\<close>

definition findNoteByTitle_ref :: "Note list \<Rightarrow> string \<Rightarrow> nat option" where
  "findNoteByTitle_ref notes titleInput =
     (let query = toLowerCase titleInput
      in case findIndex (\<lambda>n. toLowerCase (title n) = query) notes of
           Some i \<Rightarrow> Some i
         | None \<Rightarrow> findIndex (\<lambda>n. str_includes (toLowerCase (title n)) query) notes)"

section \<open>The operations of the menu\<close>

text \<open>The two \<open>do ... while\<close> loops of \<open>addNote\<close>: ask until the trimmed line is not empty.\<close>

function question_loop :: "message \<Rightarrow> env \<Rightarrow> string outcome" where
  "question_loop m e =
     (case question e of
        Return l e1 \<Rightarrow>
          (let t = trim l in if t = [] then question_loop m (log m e1) else Return t e1)
      | Exit c e1 \<Rightarrow> Exit c e1
      | Blocked e1 \<Rightarrow> Blocked e1)"
  by pat_completeness auto
termination
  by (relation "measure (\<lambda>(m, e). length (stdin e))")
     (auto simp: question_def log_def split: list.splits)

definition addNote :: "Note list \<Rightarrow> env \<Rightarrow> Note list outcome" where
  "addNote notes e =
     then_do (question_loop TitleEmpty e) (\<lambda>t e1.
       if list_ex (\<lambda>n. toLowerCase (title n) = toLowerCase t) notes
       then Return notes (log (TitleExists t) e1)
       else then_do (question_loop BodyEmpty e1) (\<lambda>b e2.
         let notes' = notes @ [\<lparr>title = t, body = b, time_added = now e2\<rparr>]
         in then_do (saveNotes (notes_json notes') e2) (\<lambda>u e3.
              Return notes' (log NoteAdded e3))))"

fun note_entries :: "nat \<Rightarrow> Note list \<Rightarrow> message list" where
  "note_entries i [] = []"
| "note_entries i (n # ns) = NoteEntry (i + 1) n # note_entries (i + 1) ns"

definition listAllNotes :: "Note list \<Rightarrow> env \<Rightarrow> unit outcome" where
  "listAllNotes notes e =
     (if length notes = 0 then Return () (log NoNotesFound e)
      else Return () (e\<lparr>console := console e @ AllNotes # note_entries 0 notes\<rparr>))"

definition readNote :: "Note list \<Rightarrow> env \<Rightarrow> unit outcome" where
  "readNote notes e =
     then_do (question e) (\<lambda>l e1.
       let titleInput = trim l
       in if titleInput = [] then Return () (log TitleInputEmpty e1)
          else (case findNoteByTitle notes titleInput of
                  None \<Rightarrow> Return () (log (NoNoteFound titleInput) e1)
                | Some n \<Rightarrow> Return () (log (ShowNote n) e1)))"

definition deleteNote :: "Note list \<Rightarrow> env \<Rightarrow> Note list outcome" where
  "deleteNote notes e =
     then_do (question e) (\<lambda>l e1.
       let titleInput = trim l
       in if titleInput = [] then Return notes (log TitleInputEmpty e1)
          else (case findIndex (\<lambda>n. toLowerCase (title n) = toLowerCase titleInput \<or>
                                   str_includes (toLowerCase (title n)) (toLowerCase titleInput))
                       notes of
                  None \<Rightarrow> Return notes (log (NoNoteFound titleInput) e1)
                | Some index \<Rightarrow>
                    let deletedNote = notes ! index;
                        notes' = take index notes @ drop (Suc index) notes
                    in then_do (saveNotes (notes_json notes') e1) (\<lambda>u e2.
                         Return notes' (log (NoteDeleted (title deletedNote)) e2))))"

definition updateNote :: "Note list \<Rightarrow> env \<Rightarrow> Note list outcome" where
  "updateNote notes e =
     then_do (question e) (\<lambda>l e1.
       let titleInput = trim l
       in if titleInput = [] then Return notes (log TitleInputEmpty e1)
          else (case findNoteByTitle_ref notes titleInput of
                  None \<Rightarrow> Return notes (log (NoNoteFound titleInput) e1)
                | Some i \<Rightarrow>
                    then_do (question e1) (\<lambda>l2 e2.
                      let newBody = trim l2
                      in if newBody = [] then Return notes (log BodyEmpty e2)
                         else let notes' = notes[i := (notes ! i)\<lparr>body := newBody\<rparr>]
                              in then_do (saveNotes (notes_json notes') e2) (\<lambda>u e3.
                                   Return notes' (log NoteUpdated e3)))))"

text \<open>One turn of the \<open>while (true)\<close> loop of \<open>main\<close>.\<close>

definition menu_step :: "Note list \<Rightarrow> env \<Rightarrow> Note list outcome" where
  "menu_step notes e =
     then_do (question (log Menu e)) (\<lambda>l e1.
       let choice = trim l
       in if choice = ''1'' then addNote notes e1
          else if choice = ''2'' then then_do (listAllNotes notes e1) (\<lambda>u e2. Return notes e2)
          else if choice = ''3'' then then_do (readNote notes e1) (\<lambda>u e2. Return notes e2)
          else if choice = ''4'' then deleteNote notes e1
          else if choice = ''5'' then updateNote notes e1
          else if choice = ''6'' then Exit 0 (log Goodbye e1)
          else Return notes (log InvalidChoice e1))"

text \<open>The note lists that the three changing operations reach from the empty repository.\<close>

inductive reachable :: "Note list \<Rightarrow> bool" where
  reachable_empty: "reachable []"
| reachable_add: "reachable notes \<Longrightarrow> addNote notes e = Return notes' e' \<Longrightarrow> reachable notes'"
| reachable_update: "reachable notes \<Longrightarrow> updateNote notes e = Return notes' e' \<Longrightarrow> reachable notes'"
| reachable_delete: "reachable notes \<Longrightarrow> deleteNote notes e = Return notes' e' \<Longrightarrow> reachable notes'"

text \<open>
  The title prompt of the stand-alone script: \<open>while (true)\<close>, left by \<open>return\<close> when the
  trimmed line has a length other than 0.
\<close>

function getValidatedTitle :: "env \<Rightarrow> string outcome" where
  "getValidatedTitle e =
     (case question e of
        Return l e1 \<Rightarrow>
          (let t = trim l
           in if length t = 0 then getValidatedTitle (log TitleEmptyRetry e1) else Return t e1)
      | Exit c e1 \<Rightarrow> Exit c e1
      | Blocked e1 \<Rightarrow> Blocked e1)"
  by pat_completeness auto
termination
  by (relation "measure (\<lambda>e. length (stdin e))")
     (auto simp: question_def log_def split: list.splits)

section \<open>The vocabulary of the specification\<close>

text \<open>
  Case-insensitive equality and containment of titles, a text without white space at either
  end, a note list without two case-insensitively equal titles, and the structure the
  specification expects of the persisted document, without the format of the time stamp:
  an array of objects with a text \<open>title\<close>, a text \<open>body\<close> and a text \<open>time_added\<close>.
\<close>

definition ci_equal :: "string \<Rightarrow> string \<Rightarrow> bool" where
  "ci_equal a b = (toLowerCase a = toLowerCase b)"

definition ci_contains :: "string \<Rightarrow> string \<Rightarrow> bool" where
  "ci_contains a q = str_includes (toLowerCase a) (toLowerCase q)"

text \<open>
  \<open>findByTitle\<close> in the words of the specification: the exact match first; if there is
  none, the first note whose title contains the query.
\<close>

definition findByTitle_spec :: "Note list \<Rightarrow> string \<Rightarrow> Note option" where
  "findByTitle_spec notes query =
     (case filter (\<lambda>n. ci_equal (title n) query) notes of
        n # ns \<Rightarrow> Some n
      | [] \<Rightarrow> (case filter (\<lambda>n. ci_contains (title n) query) notes of
                 n # ns \<Rightarrow> Some n
               | [] \<Rightarrow> None))"

definition trimmed :: "string \<Rightarrow> bool" where
  "trimmed s = (s \<noteq> [] \<and> \<not> isWhiteSpace (hd s) \<and> \<not> isWhiteSpace (last s))"

definition unique_titles :: "Note list \<Rightarrow> bool" where
  "unique_titles notes = distinct (map (\<lambda>n. toLowerCase (title n)) notes)"

definition array_of_note_objects :: "json \<Rightarrow> bool" where
  "array_of_note_objects v =
     (case v of
        JArr xs \<Rightarrow>
          list_all (\<lambda>x. case x of
              JObj fs \<Rightarrow>
                (case (map_of fs ''title'', map_of fs ''body'', map_of fs ''time_added'') of
                   (Some (JStr t), Some (JStr b), Some (JStr ts)) \<Rightarrow> True
                 | _ \<Rightarrow> False)
            | _ \<Rightarrow> False) xs
      | _ \<Rightarrow> False)"

text \<open>
  The environment in which every typed line has been trimmed already, an environment change
  applied to the outcome of a call, and a note list whose titles and bodies are all trimmed.
\<close>

definition trim_stdin :: "env \<Rightarrow> env" where
  "trim_stdin e = e\<lparr>stdin := map trim (stdin e)\<rparr>"

fun on_env :: "(env \<Rightarrow> env) \<Rightarrow> 'a outcome \<Rightarrow> 'a outcome" where
  "on_env f (Return x e) = Return x (f e)"
| "on_env f (Exit c e) = Exit c (f e)"
| "on_env f (Blocked e) = Blocked (f e)"

definition all_trimmed :: "Note list \<Rightarrow> bool" where
  "all_trimmed notes = list_all (\<lambda>n. trimmed (title n) \<and> trimmed (body n)) notes"

section \<open>Example data\<close>

definition env0 :: env where
  "env0 = \<lparr>stdin = [], console = [], notes_file = None, read_ok = True, write_ok = True,
           after_failed_write = Some NotJSON, now = ''2024-05-01T10:00:00.000Z''\<rparr>"

definition note_shopping :: Note where
  "note_shopping = \<lparr>title = ''Shopping'', body = ''milk, eggs'',
                    time_added = ''2024-05-01T10:00:00.000Z''\<rparr>"

definition note_shopping_list :: Note where
  "note_shopping_list = \<lparr>title = ''Shopping List'', body = ''bread'',
                         time_added = ''2024-05-01T10:00:00.000Z''\<rparr>"

definition note_trip_plan :: Note where
  "note_trip_plan = \<lparr>title = ''Trip Plan'', body = ''pack bags'',
                     time_added = ''2024-05-01T10:00:00.000Z''\<rparr>"

definition note_trip_notes :: Note where
  "note_trip_notes = \<lparr>title = ''Trip Notes'', body = ''book hotel'',
                      time_added = ''2024-05-01T10:00:00.000Z''\<rparr>"

section \<open>Lists and strings\<close>

lemma findIndex_None: "findIndex P xs = None \<longleftrightarrow> (\<forall>x\<in>set xs. \<not> P x)"
  by (induction xs) auto

lemma findIndex_Some:
  "findIndex P xs = Some i \<longleftrightarrow> i < length xs \<and> P (xs ! i) \<and> (\<forall>j<i. \<not> P (xs ! j))"
proof (induction xs arbitrary: i)
  case Nil
  then show ?case by simp
next
  case (Cons x xs)
  show ?case
  proof (cases "P x")
    case True
    then show ?thesis by (cases i) auto
  next
    case False
    show ?thesis
    proof (cases i)
      case 0
      with False show ?thesis by auto
    next
      case (Suc k)
      have "(\<forall>j<Suc k. \<not> P ((x # xs) ! j)) \<longleftrightarrow> (\<forall>j<k. \<not> P (xs ! j))"
        using False by (auto simp: less_Suc_eq_0_disj)
      with False Suc Cons.IH [of k] show ?thesis by auto
    qed
  qed
qed

lemma find_findIndex: "find P xs = map_option (\<lambda>i. xs ! i) (findIndex P xs)"
  by (induction xs) (auto simp: option.map_comp comp_def)

lemma findNoteByTitle_ref:
  "findNoteByTitle notes q = map_option (\<lambda>i. notes ! i) (findNoteByTitle_ref notes q)"
  by (simp add: findNoteByTitle_def findNoteByTitle_ref_def find_findIndex Let_def
      split: option.splits)

lemma startsWith_iff: "startsWith s q \<longleftrightarrow> (\<exists>v. s = q @ v)"
  by (induction s q rule: startsWith.induct) auto

lemma str_includes_iff: "str_includes s q \<longleftrightarrow> (\<exists>u v. s = u @ q @ v)"
proof (induction s)
  case Nil
  then show ?case by simp
next
  case (Cons a s)
  show ?case
  proof
    assume "str_includes (a # s) q"
    then consider "startsWith (a # s) q" | "str_includes s q" by auto
    then show "\<exists>u v. a # s = u @ q @ v"
    proof cases
      case 1
      then obtain v where "a # s = q @ v" by (auto simp: startsWith_iff)
      then have "a # s = [] @ q @ v" by simp
      then show ?thesis by blast
    next
      case 2
      then obtain u v where "s = u @ q @ v" using Cons.IH by blast
      then have "a # s = (a # u) @ q @ v" by simp
      then show ?thesis by blast
    qed
  next
    assume "\<exists>u v. a # s = u @ q @ v"
    then obtain u v where uv: "a # s = u @ q @ v" by blast
    show "str_includes (a # s) q"
    proof (cases u)
      case Nil
      with uv have "startsWith (a # s) q" by (auto simp: startsWith_iff)
      then show ?thesis by simp
    next
      case (Cons b u')
      with uv have "s = u' @ q @ v" by simp
      with Cons.IH show ?thesis by auto
    qed
  qed
qed

lemma str_includes_self: "str_includes s s"
  using str_includes_iff [of s s] by (metis append_Nil append_Nil2)

lemma str_includes_empty: "str_includes s []"
  by (cases s) simp_all

lemma toLowerCase_Nil_iff: "toLowerCase s = [] \<longleftrightarrow> s = []"
  by (simp add: toLowerCase_def)

lemma trim_Nil: "trim [] = []"
  by (simp add: trim_def)

lemma dropWhile_keep: "xs \<noteq> [] \<Longrightarrow> \<not> P (hd xs) \<Longrightarrow> dropWhile P xs = xs"
  by (cases xs) auto

lemma trim_empty_iff: "trim s = [] \<longleftrightarrow> (\<forall>c\<in>set s. isWhiteSpace c)"
proof
  assume t: "trim s = []"
  let ?d = "dropWhile isWhiteSpace s"
  have all: "\<forall>x\<in>set ?d. isWhiteSpace x"
    using t by (simp add: trim_def)
  have "?d = []"
  proof (rule ccontr)
    assume ne: "?d \<noteq> []"
    then have "\<not> isWhiteSpace (hd ?d)" by (rule hd_dropWhile)
    moreover have "hd ?d \<in> set ?d" using ne by simp
    ultimately show False using all by blast
  qed
  then show "\<forall>c\<in>set s. isWhiteSpace c" by simp
next
  assume "\<forall>c\<in>set s. isWhiteSpace c"
  then show "trim s = []" by (auto simp: trim_def dest: set_dropWhileD)
qed

lemma trim_hd: "trim s \<noteq> [] \<Longrightarrow> \<not> isWhiteSpace (hd (trim s))"
proof -
  assume ne: "trim s \<noteq> []"
  let ?d = "dropWhile isWhiteSpace s"
  have dne: "?d \<noteq> []" using ne by (auto simp: trim_def dest: set_dropWhileD)
  then have h: "\<not> isWhiteSpace (hd ?d)" by (rule hd_dropWhile)
  obtain a r where d: "?d = a # r" using dne by (cases ?d) auto
  with h have a: "\<not> isWhiteSpace a" by simp
  have "trim s = rev (dropWhile isWhiteSpace (rev r @ [a]))" by (simp add: trim_def d)
  also have "\<dots> = rev (dropWhile isWhiteSpace (rev r) @ [a])"
    using a by (simp add: dropWhile_append3)
  finally show ?thesis using a by simp
qed

lemma trim_last: "trim s \<noteq> [] \<Longrightarrow> \<not> isWhiteSpace (last (trim s))"
proof -
  assume ne: "trim s \<noteq> []"
  let ?r = "dropWhile isWhiteSpace (rev (dropWhile isWhiteSpace s))"
  have "?r \<noteq> []" using ne by (simp add: trim_def)
  then have "\<not> isWhiteSpace (hd ?r)" by (rule hd_dropWhile)
  moreover have "last (trim s) = hd ?r" using \<open>?r \<noteq> []\<close> by (simp add: trim_def last_rev)
  ultimately show ?thesis by simp
qed

lemma trim_fixed: "s \<noteq> [] \<Longrightarrow> \<not> isWhiteSpace (hd s) \<Longrightarrow> \<not> isWhiteSpace (last s) \<Longrightarrow> trim s = s"
proof -
  assume ne: "s \<noteq> []" and h: "\<not> isWhiteSpace (hd s)" and l: "\<not> isWhiteSpace (last s)"
  have 1: "dropWhile isWhiteSpace s = s" using ne h by (rule dropWhile_keep)
  have "rev s \<noteq> []" using ne by simp
  moreover have "\<not> isWhiteSpace (hd (rev s))" using ne l by (simp add: hd_rev)
  ultimately have 2: "dropWhile isWhiteSpace (rev s) = rev s" by (rule dropWhile_keep)
  show ?thesis by (simp add: trim_def 1 2)
qed

lemma trim_idem: "trim (trim s) = trim s"
proof (cases "trim s = []")
  case True
  then show ?thesis by (simp add: trim_Nil)
next
  case False
  then show ?thesis by (intro trim_fixed trim_hd trim_last)
qed

section \<open>The prompt loop\<close>

declare question_loop.simps [simp del]

declare getValidatedTitle.simps [simp del]

lemma question_loop_blank:
  "stdin e = l # ls \<Longrightarrow> trim l = [] \<Longrightarrow>
   question_loop m e = question_loop m (log m (e\<lparr>stdin := ls\<rparr>))"
  by (subst question_loop.simps) (simp add: question_def)

lemma question_loop_value:
  "stdin e = l # ls \<Longrightarrow> trim l \<noteq> [] \<Longrightarrow>
   question_loop m e = Return (trim l) (e\<lparr>stdin := ls\<rparr>)"
  by (subst question_loop.simps) (simp add: question_def)

lemma question_loop_Blocked: "stdin e = [] \<Longrightarrow> question_loop m e = Blocked e"
  by (subst question_loop.simps) (simp add: question_def)

lemma question_loop_blanks:
  "stdin e = blanks @ l # ls \<Longrightarrow> \<forall>b\<in>set blanks. trim b = [] \<Longrightarrow> trim l \<noteq> [] \<Longrightarrow>
   question_loop m e =
     Return (trim l) (e\<lparr>stdin := ls, console := console e @ replicate (length blanks) m\<rparr>)"
proof (induction blanks arbitrary: e)
  case Nil
  then show ?case by (simp add: question_loop_value)
next
  case (Cons b bs)
  let ?e = "log m (e\<lparr>stdin := bs @ l # ls\<rparr>)"
  have "question_loop m e = question_loop m ?e"
    using Cons.prems by (intro question_loop_blank) auto
  also have "\<dots> = Return (trim l) (?e\<lparr>stdin := ls, console := console ?e @ replicate (length bs) m\<rparr>)"
    using Cons.prems by (intro Cons.IH) (auto simp: log_def)
  finally show ?case by (simp add: log_def replicate_append_same)
qed

lemma question_loop_Return:
  "question_loop m e = Return t e1 \<Longrightarrow>
   t \<noteq> [] \<and> trim t = t \<and> notes_file e1 = notes_file e \<and> read_ok e1 = read_ok e \<and>
   write_ok e1 = write_ok e \<and> now e1 = now e"
proof (induction m e rule: question_loop.induct)
  case (1 m e)
  show ?case
  proof (cases "stdin e")
    case Nil
    with "1.prems" show ?thesis by (simp add: question_loop_Blocked)
  next
    case (Cons l ls)
    show ?thesis
    proof (cases "trim l = []")
      case True
      have q: "question e = Return l (e\<lparr>stdin := ls\<rparr>)" using Cons by (simp add: question_def)
      have "question_loop m (log m (e\<lparr>stdin := ls\<rparr>)) = Return t e1"
        using "1.prems" question_loop_blank [OF Cons True, of m] by simp
      from "1.IH" [OF q refl True this] show ?thesis by (simp add: log_def)
    next
      case False
      with "1.prems" Cons show ?thesis
        by (auto simp: question_loop_value trim_idem)
    qed
  qed
qed

lemma question_loop_no_Exit: "question_loop m e \<noteq> Exit c e1"
proof (induction m e rule: question_loop.induct)
  case (1 m e)
  show ?case
  proof (cases "stdin e")
    case Nil
    then show ?thesis by (simp add: question_loop_Blocked)
  next
    case (Cons l ls)
    show ?thesis
    proof (cases "trim l = []")
      case True
      have q: "question e = Return l (e\<lparr>stdin := ls\<rparr>)" using Cons by (simp add: question_def)
      from "1.IH" [OF q refl True] question_loop_blank [OF Cons True, of m] show ?thesis by simp
    next
      case False
      with Cons show ?thesis by (simp add: question_loop_value)
    qed
  qed
qed

section \<open>What an operation that returns has done\<close>

lemma trimmed_trim: "trim l \<noteq> [] \<Longrightarrow> trimmed (trim l)"
  by (simp add: trimmed_def trim_hd trim_last)

lemma then_do_Return:
  "then_do r f = Return y e' \<longleftrightarrow> (\<exists>x e1. r = Return x e1 \<and> f x e1 = Return y e')"
  by (cases r) (simp_all add: then_do_def)

lemma saveNotes_Return:
  "saveNotes v e = Return u e' \<longleftrightarrow> write_ok e \<and> e' = e\<lparr>notes_file := Some (Parsed v)\<rparr>"
  by (auto simp: saveNotes_def)

lemma question_Return:
  "question e = Return l e1 \<longleftrightarrow> (\<exists>ls. stdin e = l # ls \<and> e1 = e\<lparr>stdin := ls\<rparr>)"
  by (auto simp: question_def split: list.splits)

lemma addNote_Return:
  assumes "addNote notes e = Return notes' e'"
  shows "notes' = notes \<or>
         (\<exists>t b. notes' = notes @ [\<lparr>title = t, body = b, time_added = now e\<rparr>] \<and>
                 trimmed t \<and> trimmed b \<and> (\<forall>n\<in>set notes. \<not> ci_equal (title n) t) \<and>
                 notes_file e' = Some (Parsed (notes_json notes')))"
proof -
  from assms obtain t e1 where
    t: "question_loop TitleEmpty e = Return t e1" and
    r: "(if list_ex (\<lambda>n. toLowerCase (title n) = toLowerCase t) notes
         then Return notes (log (TitleExists t) e1)
         else then_do (question_loop BodyEmpty e1) (\<lambda>b e2.
           let notes' = notes @ [\<lparr>title = t, body = b, time_added = now e2\<rparr>]
           in then_do (saveNotes (notes_json notes') e2) (\<lambda>u e3.
                Return notes' (log NoteAdded e3)))) = Return notes' e'"
    unfolding addNote_def then_do_Return by blast
  show ?thesis
  proof (cases "list_ex (\<lambda>n. toLowerCase (title n) = toLowerCase t) notes")
    case True
    with r show ?thesis by simp
  next
    case False
    with r obtain b e2 where
      b: "question_loop BodyEmpty e1 = Return b e2" and
      s: "then_do (saveNotes (notes_json (notes @ [\<lparr>title = t, body = b, time_added = now e2\<rparr>])) e2)
            (\<lambda>u e3. Return (notes @ [\<lparr>title = t, body = b, time_added = now e2\<rparr>]) (log NoteAdded e3))
          = Return notes' e'"
      by (auto simp: then_do_Return Let_def)
    from question_loop_Return [OF t] question_loop_Return [OF b]
    have tt: "trimmed t" and tb: "trimmed b" and nw: "now e2 = now e"
      by (metis trimmed_trim)+
    from s have "notes' = notes @ [\<lparr>title = t, body = b, time_added = now e2\<rparr>]"
      and "notes_file e' = Some (Parsed (notes_json notes'))"
      by (auto simp: then_do_Return saveNotes_Return log_def)
    moreover from False have "\<forall>n\<in>set notes. \<not> ci_equal (title n) t"
      by (simp add: list_ex_iff ci_equal_def)
    ultimately show ?thesis using tt tb nw by auto
  qed
qed

lemma deleteNote_Return:
  assumes "deleteNote notes e = Return notes' e'"
  shows "notes' = notes \<or> (\<exists>i<length notes. notes' = take i notes @ drop (Suc i) notes)"
  using assms
  by (auto simp: deleteNote_def then_do_Return Let_def findIndex_Some
      split: if_splits option.splits)

lemma findNoteByTitle_ref_less: "findNoteByTitle_ref notes q = Some i \<Longrightarrow> i < length notes"
  by (auto simp: findNoteByTitle_ref_def Let_def findIndex_Some split: option.splits)

lemma updateNote_Return:
  assumes "updateNote notes e = Return notes' e'"
  shows "notes' = notes \<or>
         (\<exists>i nb. i < length notes \<and> trimmed nb \<and> notes' = notes[i := (notes ! i)\<lparr>body := nb\<rparr>])"
  using assms
  by (auto simp: updateNote_def then_do_Return Let_def
      dest!: findNoteByTitle_ref_less split: if_splits option.splits)
     (metis trimmed_trim)


section \<open>What an operation does on given input\<close>

lemma ci_equal_contains: "ci_equal a q \<Longrightarrow> ci_contains a q"
  by (simp add: ci_equal_def ci_contains_def str_includes_self)

lemma ci_contains_iff: "ci_contains a q \<longleftrightarrow> (\<exists>u v. toLowerCase a = u @ toLowerCase q @ v)"
  by (simp add: ci_contains_def str_includes_iff)

lemma findNoteByTitle_exact:
  assumes "i < length notes" "ci_equal (title (notes ! i)) q"
    "\<forall>j<i. \<not> ci_equal (title (notes ! j)) q"
  shows "findNoteByTitle notes q = Some (notes ! i)"
proof -
  have "findIndex (\<lambda>n. toLowerCase (title n) = toLowerCase q) notes = Some i"
    using assms by (simp add: findIndex_Some ci_equal_def)
  then show ?thesis by (simp add: findNoteByTitle_def find_findIndex)
qed

lemma findNoteByTitle_substring:
  assumes "\<forall>n\<in>set notes. \<not> ci_equal (title n) q"
    "i < length notes" "ci_contains (title (notes ! i)) q"
    "\<forall>j<i. \<not> ci_contains (title (notes ! j)) q"
  shows "findNoteByTitle notes q = Some (notes ! i)"
proof -
  have "findIndex (\<lambda>n. toLowerCase (title n) = toLowerCase q) notes = None"
    using assms(1) by (simp add: findIndex_None ci_equal_def)
  moreover have "findIndex (\<lambda>n. str_includes (toLowerCase (title n)) (toLowerCase q)) notes = Some i"
    using assms(2-4) by (simp add: findIndex_Some ci_contains_def)
  ultimately show ?thesis by (simp add: findNoteByTitle_def find_findIndex)
qed

lemma find_first_of_filter:
  "find P xs = (case filter P xs of [] \<Rightarrow> None | x # ys \<Rightarrow> Some x)"
  by (induction xs) simp_all

lemma findNoteByTitle_spec: "findNoteByTitle notes q = findByTitle_spec notes q"
  by (simp add: findNoteByTitle_def findByTitle_spec_def find_first_of_filter ci_equal_def
      ci_contains_def split: list.splits)

lemma findNoteByTitle_None:
  "findNoteByTitle notes q = None \<longleftrightarrow> (\<forall>n\<in>set notes. \<not> ci_contains (title n) q)"
proof
  assume "findNoteByTitle notes q = None"
  then have "findIndex (\<lambda>n. str_includes (toLowerCase (title n)) (toLowerCase q)) notes = None"
    by (auto simp: findNoteByTitle_def find_findIndex Let_def split: option.splits)
  then show "\<forall>n\<in>set notes. \<not> ci_contains (title n) q"
    by (simp add: findIndex_None ci_contains_def)
next
  assume a: "\<forall>n\<in>set notes. \<not> ci_contains (title n) q"
  then have "\<forall>n\<in>set notes. \<not> ci_equal (title n) q" using ci_equal_contains by blast
  then have "findIndex (\<lambda>n. toLowerCase (title n) = toLowerCase q) notes = None"
    by (simp add: findIndex_None ci_equal_def)
  moreover have "findIndex (\<lambda>n. str_includes (toLowerCase (title n)) (toLowerCase q)) notes = None"
    using a by (simp add: findIndex_None ci_contains_def)
  ultimately show "findNoteByTitle notes q = None"
    by (simp add: findNoteByTitle_def find_findIndex)
qed

lemma addNote_adds:
  assumes "stdin e = blanks1 @ lt # blanks2 @ lb # rest"
    and "\<forall>b\<in>set blanks1. trim b = []" and "trim lt \<noteq> []"
    and "\<forall>b\<in>set blanks2. trim b = []" and "trim lb \<noteq> []"
    and "\<forall>n\<in>set notes. \<not> ci_equal (title n) (trim lt)"
    and "write_ok e"
  shows "addNote notes e =
     Return (notes @ [\<lparr>title = trim lt, body = trim lb, time_added = now e\<rparr>])
       (e\<lparr>stdin := rest,
          console := console e @ replicate (length blanks1) TitleEmpty @
                     replicate (length blanks2) BodyEmpty @ [NoteAdded],
          notes_file := Some (Parsed (notes_json
             (notes @ [\<lparr>title = trim lt, body = trim lb, time_added = now e\<rparr>])))\<rparr>)"
proof -
  let ?e1 = "e\<lparr>stdin := blanks2 @ lb # rest,
               console := console e @ replicate (length blanks1) TitleEmpty\<rparr>"
  let ?e2 = "?e1\<lparr>stdin := rest,
               console := console ?e1 @ replicate (length blanks2) BodyEmpty\<rparr>"
  have t: "question_loop TitleEmpty e = Return (trim lt) ?e1"
    using assms(1-3) by (rule question_loop_blanks)
  have b: "question_loop BodyEmpty ?e1 = Return (trim lb) ?e2"
    using assms(4,5) by (intro question_loop_blanks) auto
  have nd: "\<not> list_ex (\<lambda>n. toLowerCase (title n) = toLowerCase (trim lt)) notes"
    using assms(6) by (simp add: list_ex_iff ci_equal_def)
  show ?thesis
    using assms(7) by (simp add: addNote_def t b nd then_do_def saveNotes_def log_def Let_def)
qed

lemma addNote_rejects:
  assumes "stdin e = blanks @ l # ls"
    and "\<forall>b\<in>set blanks. trim b = []" and "trim l \<noteq> []"
    and "\<exists>n\<in>set notes. ci_equal (title n) (trim l)"
  shows "addNote notes e =
     Return notes (e\<lparr>stdin := ls,
        console := console e @ replicate (length blanks) TitleEmpty @ [TitleExists (trim l)]\<rparr>)"
proof -
  let ?e1 = "e\<lparr>stdin := ls, console := console e @ replicate (length blanks) TitleEmpty\<rparr>"
  have t: "question_loop TitleEmpty e = Return (trim l) ?e1"
    using assms(1-3) by (rule question_loop_blanks)
  have d: "list_ex (\<lambda>n. toLowerCase (title n) = toLowerCase (trim l)) notes"
    using assms(4) by (simp add: list_ex_iff ci_equal_def)
  show ?thesis by (simp add: addNote_def t d then_do_def log_def)
qed

lemma deleteNote_deletes:
  assumes "stdin e = l # ls" and "trim l \<noteq> []"
    and "findIndex (\<lambda>n. ci_contains (title n) (trim l)) notes = Some i"
    and "write_ok e"
  shows "deleteNote notes e =
     Return (take i notes @ drop (Suc i) notes)
       (e\<lparr>stdin := ls,
          notes_file := Some (Parsed (notes_json (take i notes @ drop (Suc i) notes))),
          console := console e @ [NoteDeleted (title (notes ! i))]\<rparr>)"
proof -
  have eq: "(\<lambda>n. toLowerCase (title n) = toLowerCase (trim l) \<or>
                 str_includes (toLowerCase (title n)) (toLowerCase (trim l)))
            = (\<lambda>n. ci_contains (title n) (trim l))"
    by (auto simp: ci_contains_def str_includes_self)
  show ?thesis
    using assms by (simp add: deleteNote_def question_def then_do_def eq saveNotes_def log_def Let_def)
qed

lemma deleteNote_not_found:
  assumes "stdin e = l # ls" and "trim l \<noteq> []"
    and "\<forall>n\<in>set notes. \<not> ci_contains (title n) (trim l)"
  shows "deleteNote notes e = Return notes (e\<lparr>stdin := ls, console := console e @ [NoNoteFound (trim l)]\<rparr>)"
proof -
  have eq: "(\<lambda>n. toLowerCase (title n) = toLowerCase (trim l) \<or>
                 str_includes (toLowerCase (title n)) (toLowerCase (trim l)))
            = (\<lambda>n. ci_contains (title n) (trim l))"
    by (auto simp: ci_contains_def str_includes_self)
  have "findIndex (\<lambda>n. ci_contains (title n) (trim l)) notes = None"
    using assms(3) by (simp add: findIndex_None)
  then show ?thesis
    using assms by (simp add: deleteNote_def question_def then_do_def eq log_def)
qed

lemma updateNote_updates:
  assumes "stdin e = l1 # l2 # rest" and "trim l1 \<noteq> []" and "trim l2 \<noteq> []"
    and "findNoteByTitle_ref notes (trim l1) = Some i"
    and "write_ok e"
  shows "updateNote notes e =
     Return (notes[i := (notes ! i)\<lparr>body := trim l2\<rparr>])
       (e\<lparr>stdin := rest,
          notes_file := Some (Parsed (notes_json (notes[i := (notes ! i)\<lparr>body := trim l2\<rparr>]))),
          console := console e @ [NoteUpdated]\<rparr>)"
  using assms by (simp add: updateNote_def question_def then_do_def saveNotes_def log_def Let_def)

section \<open>Evaluated examples\<close>

lemmas example_defs = env0_def note_shopping_def note_shopping_list_def note_trip_plan_def
  note_trip_notes_def

lemma eval_strings:
  "trim ''Shopping'' = ''Shopping''" "trim ''milk, eggs'' = ''milk, eggs''"
  "trim ''Shopping List'' = ''Shopping List''" "trim ''bread'' = ''bread''"
  "toLowerCase ''Shopping'' = ''shopping''" "toLowerCase ''Shopping List'' = ''shopping list''"
  "toLowerCase ''shopping'' = ''shopping''"
  by code_simp+

lemma eval_match:
  "ci_equal ''Shopping'' ''shopping''" "\<not> ci_equal ''Shopping List'' ''shopping''"
  "ci_contains ''Shopping List'' ''shopping''" "ci_contains ''Shopping'' ''shopping''"
  "\<not> ci_equal ''Shopping List'' ''shop''" "\<not> ci_equal ''Trip Plan'' ''shop''"
  "ci_contains ''Shopping List'' ''shop''" "\<not> ci_contains ''Trip Plan'' ''shop''"
  "\<not> ci_contains ''Shopping List'' ''trip''" "\<not> ci_contains ''Shopping'' ''trip''"
  "ci_contains ''Trip Plan'' ''trip''" "ci_contains ''Trip Notes'' ''trip''"
  "\<not> ci_equal ''Trip Plan'' ''trip''" "\<not> ci_equal ''Trip Notes'' ''trip''"
  by code_simp+

section \<open>Removing, replacing and appending notes\<close>

lemma findNoteByTitle_empty_query:
  "findNoteByTitle notes [] =
     (case find (\<lambda>n. title n = []) notes of
        Some n \<Rightarrow> Some n
      | None \<Rightarrow> (case notes of [] \<Rightarrow> None | n # ns \<Rightarrow> Some n))"
proof -
  have f: "find (\<lambda>n. str_includes (toLowerCase (title n)) []) notes =
        (case notes of [] \<Rightarrow> None | n # ns \<Rightarrow> Some n)"
    by (cases "notes") (simp_all add: str_includes_empty)
  have n: "toLowerCase [] = []" by (simp add: toLowerCase_def)
  show ?thesis
    unfolding findNoteByTitle_def Let_def n
    by (simp add: toLowerCase_Nil_iff f split: option.splits)
qed

lemma eval_trim:
  "trim ''  SHOPPING '' = ''SHOPPING''" "trim '' '' = []" "trim ''   '' = []"
  "trim ''Trip Plan'' = ''Trip Plan''" "trim ''pack bags'' = ''pack bags''"
  "trim '' trip '' = ''trip''" "trim ''trip'' = ''trip''" "trim ''shopping'' = ''shopping''"
  "trim ''shop'' = ''shop''" "trim '' oat milk '' = ''oat milk''"
  "ci_equal ''Shopping'' ''SHOPPING''" "\<not> ci_equal ''Shopping'' ''Trip Plan''"
  by code_simp+

lemma filter_take_none:
  assumes "\<forall>j<i. \<not> P (xs ! j)" and "i \<le> length xs"
  shows "filter P (take i xs) = []"
proof -
  have "\<forall>x\<in>set (take i xs). \<not> P x"
  proof
    fix x
    assume "x \<in> set (take i xs)"
    then obtain j where "j < length (take i xs)" and "take i xs ! j = x"
      by (auto simp: in_set_conv_nth)
    with assms show "\<not> P x" by auto
  qed
  then show ?thesis by (simp add: filter_empty_conv)
qed

lemma remove_first_match:
  assumes "findIndex P xs = Some i"
  shows "(\<forall>x\<in>set (take i xs @ drop (Suc i) xs). \<not> P x) \<longleftrightarrow> length (filter P xs) = 1"
proof -
  from assms have i: "i < length xs" and p: "P (xs ! i)" and b: "\<forall>j<i. \<not> P (xs ! j)"
    by (simp_all add: findIndex_Some)
  have t: "filter P (take i xs) = []" using b i by (simp add: filter_take_none)
  have "xs = take i xs @ xs ! i # drop (Suc i) xs" using i by (rule id_take_nth_drop)
  then have "filter P xs = filter P (take i xs @ xs ! i # drop (Suc i) xs)" by simp
  then have f: "filter P xs = xs ! i # filter P (drop (Suc i) xs)" using t p by simp
  have "(\<forall>x\<in>set (take i xs @ drop (Suc i) xs). \<not> P x) \<longleftrightarrow>
        filter P (take i xs) = [] \<and> filter P (drop (Suc i) xs) = []"
    by (auto simp: filter_empty_conv)
  also have "\<dots> \<longleftrightarrow> length (filter P xs) = 1" using t f by simp
  finally show ?thesis .
qed

lemma addNote_unique_titles:
  assumes "unique_titles notes" and "addNote notes e = Return notes' e'"
  shows "unique_titles notes'"
proof -
  from addNote_Return [OF assms(2)] consider "notes' = notes"
    | t b where "notes' = notes @ [\<lparr>title = t, body = b, time_added = now e\<rparr>]"
        "\<forall>n\<in>set notes. \<not> ci_equal (title n) t"
    by blast
  then show ?thesis
  proof cases
    case 1
    with assms(1) show ?thesis by simp
  next
    case 2
    from 2(2) have "toLowerCase t \<notin> (\<lambda>n. toLowerCase (title n)) ` set notes"
      by (auto simp: ci_equal_def)
    with assms(1) 2(1) show ?thesis by (simp add: unique_titles_def)
  qed
qed

lemma updateNote_unique_titles:
  assumes "unique_titles notes" and "updateNote notes e = Return notes' e'"
  shows "unique_titles notes'"
proof -
  from updateNote_Return [OF assms(2)] consider "notes' = notes"
    | i nb where "i < length notes" "notes' = notes[i := (notes ! i)\<lparr>body := nb\<rparr>]"
    by blast
  then show ?thesis
  proof cases
    case 1
    with assms(1) show ?thesis by simp
  next
    case 2
    have "map (\<lambda>n. toLowerCase (title n)) notes' = map (\<lambda>n. toLowerCase (title n)) notes"
      using 2 by (simp add: map_update list_update_same_conv)
    with assms(1) show ?thesis by (simp add: unique_titles_def)
  qed
qed

lemma distinct_remove_nth:
  "distinct xs \<Longrightarrow> distinct (take i xs @ drop (Suc i) xs)"
  using set_take_disj_set_drop_if_distinct [of xs i "Suc i"] by simp

lemma deleteNote_unique_titles:
  assumes "unique_titles notes" and "deleteNote notes e = Return notes' e'"
  shows "unique_titles notes'"
proof -
  from deleteNote_Return [OF assms(2)] consider "notes' = notes"
    | i where "i < length notes" "notes' = take i notes @ drop (Suc i) notes"
    by blast
  then show ?thesis
  proof cases
    case 1
    with assms(1) show ?thesis by simp
  next
    case 2
    have "map (\<lambda>n. toLowerCase (title n)) notes' =
          take i (map (\<lambda>n. toLowerCase (title n)) notes) @
          drop (Suc i) (map (\<lambda>n. toLowerCase (title n)) notes)"
      using 2 by (simp add: take_map drop_map)
    moreover have "distinct (take i (map (\<lambda>n. toLowerCase (title n)) notes) @
          drop (Suc i) (map (\<lambda>n. toLowerCase (title n)) notes))"
      using assms(1) unfolding unique_titles_def by (rule distinct_remove_nth)
    ultimately show ?thesis by (simp only: unique_titles_def)
  qed
qed

section \<open>Trimmed input\<close>

lemma trim_stdin_simps:
  "stdin (trim_stdin e) = map trim (stdin e)"
  "log m (trim_stdin e) = trim_stdin (log m e)"
  "(trim_stdin e)\<lparr>stdin := map trim ls\<rparr> = trim_stdin (e\<lparr>stdin := ls\<rparr>)"
  "now (trim_stdin e) = now e" "write_ok (trim_stdin e) = write_ok e"
  by (simp_all add: trim_stdin_def log_def)

lemma then_do_on_env:
  assumes "\<And>x e1. g' x (f e1) = on_env f (g x e1)"
  shows "then_do (on_env f r) g' = on_env f (then_do r g)"
  using assms by (cases r) (simp_all add: then_do_def)

lemma saveNotes_trim_stdin:
  "saveNotes v (trim_stdin e) = on_env trim_stdin (saveNotes v e)"
  by (simp add: saveNotes_def trim_stdin_def log_def)

lemma question_loop_trim_stdin:
  "question_loop m (trim_stdin e) = on_env trim_stdin (question_loop m e)"
proof (induction m e rule: question_loop.induct)
  case (1 m e)
  show ?case
  proof (cases "stdin e")
    case Nil
    then show ?thesis by (simp add: question_loop_Blocked trim_stdin_simps)
  next
    case (Cons l ls)
    then have st: "stdin (trim_stdin e) = trim l # map trim ls" by (simp add: trim_stdin_simps)
    show ?thesis
    proof (cases "trim l = []")
      case True
      have q: "question e = Return l (e\<lparr>stdin := ls\<rparr>)" using Cons by (simp add: question_def)
      have tt: "trim (trim l) = []" using True by (simp add: trim_Nil)
      have "question_loop m (trim_stdin e) =
            question_loop m (log m ((trim_stdin e)\<lparr>stdin := map trim ls\<rparr>))"
        using st tt by (rule question_loop_blank)
      also have "\<dots> = question_loop m (trim_stdin (log m (e\<lparr>stdin := ls\<rparr>)))"
        by (simp add: trim_stdin_simps)
      also have "\<dots> = on_env trim_stdin (question_loop m (log m (e\<lparr>stdin := ls\<rparr>)))"
        using "1.IH" [OF q refl True] .
      also have "\<dots> = on_env trim_stdin (question_loop m e)"
        using question_loop_blank [OF Cons True, of m] by simp
      finally show ?thesis .
    next
      case False
      have tt: "trim (trim l) \<noteq> []" using False by (simp add: trim_idem)
      have "question_loop m (trim_stdin e) =
            Return (trim (trim l)) ((trim_stdin e)\<lparr>stdin := map trim ls\<rparr>)"
        using st tt by (rule question_loop_value)
      then show ?thesis
        using question_loop_value [OF Cons False, of m] by (simp add: trim_idem trim_stdin_simps)
    qed
  qed
qed

lemma getValidatedTitle_question_loop:
  "getValidatedTitle e = question_loop TitleEmptyRetry e"
proof (induction e rule: getValidatedTitle.induct)
  case (1 e)
  show ?case
  proof (cases "stdin e")
    case Nil
    then show ?thesis
      by (subst getValidatedTitle.simps) (simp add: question_def question_loop_Blocked)
  next
    case (Cons l ls)
    have q: "question e = Return l (e\<lparr>stdin := ls\<rparr>)" using Cons by (simp add: question_def)
    show ?thesis
    proof (cases "trim l = []")
      case True
      then have "length (trim l) = 0" by simp
      from "1.IH" [OF q refl this] True q question_loop_blank [OF Cons True, of TitleEmptyRetry]
      show ?thesis by (subst getValidatedTitle.simps) simp
    next
      case False
      with q question_loop_value [OF Cons False, of TitleEmptyRetry]
      show ?thesis by (subst getValidatedTitle.simps) simp
    qed
  qed
qed

lemma addNote_trim_stdin: "addNote notes (trim_stdin e) = on_env trim_stdin (addNote notes e)"
  unfolding addNote_def question_loop_trim_stdin
  by (intro then_do_on_env)
     (simp add: Let_def question_loop_trim_stdin saveNotes_trim_stdin trim_stdin_simps
        then_do_on_env)

lemma readNote_trim_stdin: "readNote notes (trim_stdin e) = on_env trim_stdin (readNote notes e)"
  by (cases "stdin e")
     (simp_all add: readNote_def question_def then_do_def trim_idem trim_stdin_def log_def
        Let_def split: option.splits)

lemma deleteNote_trim_stdin:
  "deleteNote notes (trim_stdin e) = on_env trim_stdin (deleteNote notes e)"
  by (cases "stdin e")
     (simp_all add: deleteNote_def question_def then_do_def trim_idem trim_stdin_def log_def
        saveNotes_def Let_def split: option.splits)

lemma updateNote_trim_stdin:
  "updateNote notes (trim_stdin e) = on_env trim_stdin (updateNote notes e)"
proof (cases "stdin e")
  case Nil
  then show ?thesis
    by (simp add: updateNote_def question_def then_do_def trim_stdin_def)
next
  case (Cons l ls)
  then show ?thesis
    by (cases ls)
       (simp_all add: updateNote_def question_def then_do_def trim_idem trim_stdin_def log_def
          saveNotes_def Let_def split: option.splits)
qed

lemma listAllNotes_trim_stdin:
  "listAllNotes notes (trim_stdin e) = on_env trim_stdin (listAllNotes notes e)"
  by (simp add: listAllNotes_def trim_stdin_def log_def)

lemma menu_step_trim_stdin:
  "menu_step notes (trim_stdin e) = on_env trim_stdin (menu_step notes e)"
proof (cases "stdin e")
  case Nil
  then show ?thesis
    by (simp add: menu_step_def question_def then_do_def trim_stdin_def log_def)
next
  case (Cons l ls)
  let ?e1 = "(log Menu e)\<lparr>stdin := ls\<rparr>"
  have q: "question (log Menu e) = Return l ?e1"
    using Cons by (simp add: question_def log_def)
  have q': "question (log Menu (trim_stdin e)) = Return (trim l) (trim_stdin ?e1)"
    using Cons by (simp add: question_def log_def trim_stdin_def)
  have t: "then_do (on_env trim_stdin r) (\<lambda>u e2. Return notes e2) =
           on_env trim_stdin (then_do r (\<lambda>u e2. Return notes e2))" for r :: "unit outcome"
    by (rule then_do_on_env) simp
  show ?thesis
    unfolding menu_step_def q q'
    by (simp add: then_do_def [of "Return _ _"] trim_idem Let_def addNote_trim_stdin
        readNote_trim_stdin deleteNote_trim_stdin updateNote_trim_stdin listAllNotes_trim_stdin t
        trim_stdin_simps)
qed

lemma addNote_all_trimmed:
  assumes "all_trimmed notes" and "addNote notes e = Return notes' e'"
  shows "all_trimmed notes'"
  using addNote_Return [OF assms(2)] assms(1) by (auto simp: all_trimmed_def)

lemma updateNote_all_trimmed:
  assumes "all_trimmed notes" and "updateNote notes e = Return notes' e'"
  shows "all_trimmed notes'"
proof -
  from updateNote_Return [OF assms(2)] consider "notes' = notes"
    | i nb where "i < length notes" "trimmed nb" "notes' = notes[i := (notes ! i)\<lparr>body := nb\<rparr>]"
    by blast
  then show ?thesis
  proof cases
    case 1
    with assms(1) show ?thesis by simp
  next
    case 2
    have "trimmed (title n) \<and> trimmed (body n)" if "n \<in> set notes'" for n
    proof -
      from that 2(3) have "n = (notes ! i)\<lparr>body := nb\<rparr> \<or> n \<in> set notes"
        using set_update_subset_insert [of "notes" i "(notes ! i)\<lparr>body := nb\<rparr>"] by auto
      moreover have "notes ! i \<in> set notes" using 2(1) by simp
      ultimately show ?thesis using assms(1) 2(2) by (auto simp: all_trimmed_def list_all_iff)
    qed
    then show ?thesis by (simp add: all_trimmed_def list_all_iff)
  qed
qed

lemma deleteNote_all_trimmed:
  assumes "all_trimmed notes" and "deleteNote notes e = Return notes' e'"
  shows "all_trimmed notes'"
proof -
  from deleteNote_Return [OF assms(2)] have "set notes' \<subseteq> set notes"
    by (auto dest: in_set_takeD in_set_dropD)
  with assms(1) show ?thesis by (auto simp: all_trimmed_def list_all_iff)
qed

lemma reachable_all_trimmed: "reachable notes \<Longrightarrow> all_trimmed notes"
proof (induction rule: reachable.induct)
  case reachable_empty
  show ?case by (simp add: all_trimmed_def)
next
  case (reachable_add ns e ns' e')
  then show ?case by (simp add: addNote_all_trimmed)
next
  case (reachable_update ns e ns' e')
  then show ?case by (simp add: updateNote_all_trimmed)
next
  case (reachable_delete ns e ns' e')
  then show ?case by (simp add: deleteNote_all_trimmed)
qed

lemma blank_line_rejected:
  assumes "stdin e = l # ls" and "trim l = []"
  shows "menu_step notes e =
           Return notes (e\<lparr>stdin := ls, console := console e @ [Menu, InvalidChoice]\<rparr>)"
    and "addNote notes e = addNote notes (e\<lparr>stdin := ls, console := console e @ [TitleEmpty]\<rparr>)"
    and "readNote notes e =
           Return () (e\<lparr>stdin := ls, console := console e @ [TitleInputEmpty]\<rparr>)"
    and "deleteNote notes e =
           Return notes (e\<lparr>stdin := ls, console := console e @ [TitleInputEmpty]\<rparr>)"
    and "updateNote notes e =
           Return notes (e\<lparr>stdin := ls, console := console e @ [TitleInputEmpty]\<rparr>)"
    and "getValidatedTitle e =
           getValidatedTitle (e\<lparr>stdin := ls, console := console e @ [TitleEmptyRetry]\<rparr>)"
proof -
  show "menu_step notes e =
          Return notes (e\<lparr>stdin := ls, console := console e @ [Menu, InvalidChoice]\<rparr>)"
    using assms by (simp add: menu_step_def question_def then_do_def log_def)
  have "question_loop m e = question_loop m (e\<lparr>stdin := ls, console := console e @ [m]\<rparr>)" for m
    using question_loop_blank [OF assms, of m] by (simp add: log_def)
  then show "addNote notes e = addNote notes (e\<lparr>stdin := ls, console := console e @ [TitleEmpty]\<rparr>)"
    and "getValidatedTitle e =
           getValidatedTitle (e\<lparr>stdin := ls, console := console e @ [TitleEmptyRetry]\<rparr>)"
    by (simp_all add: addNote_def getValidatedTitle_question_loop)
  show "readNote notes e =
           Return () (e\<lparr>stdin := ls, console := console e @ [TitleInputEmpty]\<rparr>)"
    and "deleteNote notes e =
           Return notes (e\<lparr>stdin := ls, console := console e @ [TitleInputEmpty]\<rparr>)"
    and "updateNote notes e =
           Return notes (e\<lparr>stdin := ls, console := console e @ [TitleInputEmpty]\<rparr>)"
    using assms
    by (simp_all add: readNote_def deleteNote_def updateNote_def question_def then_do_def log_def)
qed

lemma blank_body_rejected:
  assumes "stdin e = l1 # l # ls" and "trim l1 \<noteq> []" and "trim l = []"
  shows "(\<forall>n\<in>set notes. \<not> ci_equal (title n) (trim l1)) \<longrightarrow>
           addNote notes e = addNote notes (e\<lparr>stdin := l1 # ls, console := console e @ [BodyEmpty]\<rparr>)"
    and "findNoteByTitle notes (trim l1) \<noteq> None \<longrightarrow>
           updateNote notes e = Return notes (e\<lparr>stdin := ls, console := console e @ [BodyEmpty]\<rparr>)"
proof -
  let ?e' = "e\<lparr>stdin := l1 # ls, console := console e @ [BodyEmpty]\<rparr>"
  have t: "question_loop TitleEmpty e = Return (trim l1) (e\<lparr>stdin := l # ls\<rparr>)"
    using assms(1,2) by (rule question_loop_value)
  have t': "question_loop TitleEmpty ?e' = Return (trim l1) (?e'\<lparr>stdin := ls\<rparr>)"
    using assms(2) by (intro question_loop_value) simp_all
  have b: "question_loop BodyEmpty (e\<lparr>stdin := l # ls\<rparr>) =
           question_loop BodyEmpty (?e'\<lparr>stdin := ls\<rparr>)"
  proof -
    have "question_loop BodyEmpty (e\<lparr>stdin := l # ls\<rparr>) =
          question_loop BodyEmpty (log BodyEmpty (e\<lparr>stdin := l # ls\<rparr>\<lparr>stdin := ls\<rparr>))"
      using assms(3) by (intro question_loop_blank) simp_all
    moreover have "log BodyEmpty (e\<lparr>stdin := l # ls\<rparr>\<lparr>stdin := ls\<rparr>) = ?e'\<lparr>stdin := ls\<rparr>"
      by (simp add: log_def)
    ultimately show ?thesis by (simp only:)
  qed
  show "(\<forall>n\<in>set notes. \<not> ci_equal (title n) (trim l1)) \<longrightarrow> addNote notes e = addNote notes ?e'"
    by (simp add: addNote_def t t' b then_do_def [of "Return _ _"] list_ex_iff ci_equal_def)
  show "findNoteByTitle notes (trim l1) \<noteq> None \<longrightarrow>
          updateNote notes e = Return notes (e\<lparr>stdin := ls, console := console e @ [BodyEmpty]\<rparr>)"
    using assms
    by (auto simp: updateNote_def question_def then_do_def log_def findNoteByTitle_ref
        split: option.splits)
qed

section \<open>Padded input\<close>

lemma eval_padded:
  "trim '' 4 '' = ''4''" "trim '' Trip Plan '' = ''Trip Plan''"
  "trim '' pack bags '' = ''pack bags''"
  by code_simp+

lemma menu_step_dispatch:
  assumes "stdin e = l # ls"
  shows "trim l = ''1'' \<longrightarrow>
           menu_step notes e = addNote notes ((log Menu e)\<lparr>stdin := ls\<rparr>)"
    and "trim l = ''2'' \<longrightarrow>
           menu_step notes e =
             then_do (listAllNotes notes ((log Menu e)\<lparr>stdin := ls\<rparr>))
               (\<lambda>u e2. Return notes e2)"
    and "trim l = ''3'' \<longrightarrow>
           menu_step notes e =
             then_do (readNote notes ((log Menu e)\<lparr>stdin := ls\<rparr>))
               (\<lambda>u e2. Return notes e2)"
    and "trim l = ''4'' \<longrightarrow>
           menu_step notes e = deleteNote notes ((log Menu e)\<lparr>stdin := ls\<rparr>)"
    and "trim l = ''5'' \<longrightarrow>
           menu_step notes e = updateNote notes ((log Menu e)\<lparr>stdin := ls\<rparr>)"
    and "trim l = ''6'' \<longrightarrow>
           menu_step notes e = Exit 0 (e\<lparr>stdin := ls, console := console e @ [Menu, Goodbye]\<rparr>)"
    and "trim l \<notin> set [''1'', ''2'', ''3'', ''4'', ''5'', ''6''] \<longrightarrow>
           menu_step notes e =
             Return notes (e\<lparr>stdin := ls, console := console e @ [Menu, InvalidChoice]\<rparr>)"
  using assms
  by (simp_all add: menu_step_def question_def then_do_def [of "Return _ _"] log_def)

lemma getValidatedTitle_returns:
  assumes "stdin e = blanks @ l # ls" and "\<forall>b\<in>set blanks. trim b = []" and "trim l \<noteq> []"
  shows "getValidatedTitle e =
           Return (trim l)
             (e\<lparr>stdin := ls, console := console e @ replicate (length blanks) TitleEmptyRetry\<rparr>)"
  using question_loop_blanks [OF assms] by (simp add: getValidatedTitle_question_loop)

lemma readNote_reads:
  assumes "stdin e = l # ls" and "trim l \<noteq> []"
  shows "readNote notes e =
           Return () (e\<lparr>stdin := ls, console := console e @
              [case findNoteByTitle notes (trim l) of
                 None \<Rightarrow> NoNoteFound (trim l) | Some n \<Rightarrow> ShowNote n]\<rparr>)"
  using assms
  by (simp add: readNote_def question_def then_do_def log_def split: option.splits)

lemma updateNote_not_found:
  assumes "stdin e = l # ls" and "trim l \<noteq> []" and "findNoteByTitle notes (trim l) = None"
  shows "updateNote notes e =
           Return notes (e\<lparr>stdin := ls, console := console e @ [NoNoteFound (trim l)]\<rparr>)"
  using assms
  by (simp add: updateNote_def question_def then_do_def log_def findNoteByTitle_ref)

section \<open>Loading\<close>

lemma loadNotes_existing_file:
  assumes "notes_file e = Some d"
  shows "(\<not> read_ok e \<or> d = NotJSON \<longrightarrow>
            loadNotes e = Exit 1 (e\<lparr>console := console e @ [ReadError]\<rparr>)) \<and>
         (read_ok e \<and> d = Parsed v \<longrightarrow> loadNotes e = Return v e)"
  using assms by (auto simp: loadNotes_def log_def)

section \<open>The claims\<close>

text \<open>
  C1, as stated, fails: with the notes "Trip Plan" and "Trip Notes", deleting by "trip" removes
  "Trip Plan", and the same query then finds "Trip Notes".
\<close>

theorem deleteNote_then_findNoteByTitle_counterexample:
  "deleteNote [note_trip_plan, note_trip_notes] (env0\<lparr>stdin := [''trip'']\<rparr>) =
     Return [note_trip_notes]
       (env0\<lparr>stdin := [], notes_file := Some (Parsed (notes_json [note_trip_notes])),
             console := [NoteDeleted ''Trip Plan'']\<rparr>) \<and>
   findNoteByTitle [note_trip_notes] ''trip'' = Some note_trip_notes"
  by code_simp

text \<open>
  C1, amended. When the trimmed query is not empty, some title contains it case-insensitively
  and the file can be written, \<open>deleteNote\<close> removes one note, and \<open>findNoteByTitle\<close> with
  the same query finds nothing in the remaining list exactly when the removed note was the
  only one whose title contains the query.
\<close>

theorem deleteNote_then_findNoteByTitle:
  assumes "stdin e = l # ls" and "trim l \<noteq> []"
    and "\<exists>n\<in>set notes. ci_contains (title n) (trim l)"
    and "write_ok e"
  shows "\<exists>notes' e'. deleteNote notes e = Return notes' e' \<and>
           Suc (length notes') = length notes \<and>
           (findNoteByTitle notes' (trim l) = None \<longleftrightarrow>
            length (filter (\<lambda>n. ci_contains (title n) (trim l)) notes) = 1)"
proof -
  let ?P = "\<lambda>n. ci_contains (title n) (trim l)"
  from assms(3) obtain i where fi: "findIndex ?P notes = Some i"
    using findIndex_None [of ?P "notes"] by (cases "findIndex ?P notes") auto
  then have i: "i < length notes" by (simp add: findIndex_Some)
  let ?notes' = "take i notes @ drop (Suc i) notes"
  have "findNoteByTitle ?notes' (trim l) = None \<longleftrightarrow> length (filter ?P notes) = 1"
    using remove_first_match [OF fi] by (simp only: findNoteByTitle_None)
  moreover have "Suc (length ?notes') = length notes" using i by simp
  ultimately show ?thesis
    using deleteNote_deletes [OF assms(1,2) fi assms(4)] by simp
qed

theorem deleteNote_then_findNoteByTitle_witness:
  "\<exists>e'. deleteNote [note_shopping, note_trip_plan] (env0\<lparr>stdin := ['' trip '']\<rparr>) =
           Return [note_shopping] e' \<and>
         findNoteByTitle [note_shopping] ''trip'' = None"
proof -
  have d: "deleteNote [note_shopping, note_trip_plan] (env0\<lparr>stdin := ['' trip '']\<rparr>) =
             Return [note_shopping]
               (env0\<lparr>stdin := [], notes_file := Some (Parsed (notes_json [note_shopping])),
                     console := [NoteDeleted ''Trip Plan'']\<rparr>)"
    by code_simp
  show ?thesis
    using deleteNote_then_findNoteByTitle
      [of "env0\<lparr>stdin := ['' trip '']\<rparr>" "'' trip ''" "[]" "[note_shopping, note_trip_plan]"] d
    by (auto simp: example_defs eval_trim eval_match)
qed

text \<open>
  C2. \<open>deleteNote\<close> is claimed to pick the note \<open>findNoteByTitle\<close> picks. With the notes
  "Shopping List" and "Shopping" and the query "shopping", \<open>findNoteByTitle\<close> returns the
  exact match "Shopping", and \<open>deleteNote\<close> removes "Shopping List": its one scan takes the
  first title that equals or contains the query.
\<close>

theorem deleteNote_passes_over_the_exact_match:
  "findNoteByTitle [note_shopping_list, note_shopping] ''shopping'' = Some note_shopping \<and>
   deleteNote [note_shopping_list, note_shopping] (env0\<lparr>stdin := [''shopping'']\<rparr>) =
     Return [note_shopping]
       (env0\<lparr>stdin := [], notes_file := Some (Parsed (notes_json [note_shopping])),
             console := [NoteDeleted ''Shopping List'']\<rparr>)"
  by code_simp

text \<open>
  C3, as stated, fails: every title contains the empty string, so the empty query finds the
  first note.
\<close>

theorem findNoteByTitle_empty_query_counterexample:
  "findNoteByTitle [note_trip_plan] [] = Some note_trip_plan"
  by (simp add: findNoteByTitle_def toLowerCase_def note_trip_plan_def)

text \<open>
  C3, amended. With the empty query \<open>findNoteByTitle\<close> returns the first note whose title is
  empty, else the first note of the list, and nothing only on the empty list. \<open>readNote\<close>,
  \<open>updateNote\<close> and \<open>deleteNote\<close> report an empty trimmed query and return before any search.
\<close>

theorem empty_query_finds_a_note_unless_guarded:
  "findNoteByTitle notes [] =
     (case find (\<lambda>n. title n = []) notes of
        Some n \<Rightarrow> Some n
      | None \<Rightarrow> (case notes of [] \<Rightarrow> None | n # ns \<Rightarrow> Some n)) \<and>
   (stdin e = l # ls \<and> trim l = [] \<longrightarrow>
      readNote notes e = Return () (e\<lparr>stdin := ls, console := console e @ [TitleInputEmpty]\<rparr>) \<and>
      updateNote notes e = Return notes (e\<lparr>stdin := ls, console := console e @ [TitleInputEmpty]\<rparr>) \<and>
      deleteNote notes e = Return notes (e\<lparr>stdin := ls, console := console e @ [TitleInputEmpty]\<rparr>))"
  by (simp add: findNoteByTitle_empty_query readNote_def updateNote_def deleteNote_def
      question_def then_do_def log_def)

theorem empty_query_finds_a_note_unless_guarded_witness:
  "findNoteByTitle [note_trip_plan, note_shopping] [] = Some note_trip_plan \<and>
   findNoteByTitle [] [] = None \<and>
   readNote [note_trip_plan] (env0\<lparr>stdin := [''   '']\<rparr>) =
     Return () (env0\<lparr>stdin := [], console := [TitleInputEmpty]\<rparr>)"
  using empty_query_finds_a_note_unless_guarded
      [of "[note_trip_plan, note_shopping]" "env0\<lparr>stdin := [''   '']\<rparr>" "''   ''" "[]"]
    empty_query_finds_a_note_unless_guarded [of "[]" env0 "[]" "[]"]
    empty_query_finds_a_note_unless_guarded
      [of "[note_trip_plan]" "env0\<lparr>stdin := [''   '']\<rparr>" "''   ''" "[]"]
  by (simp add: example_defs trim_def isWhiteSpace_def)

text \<open>
  C4. A document that exists and cannot be parsed as an array of note objects is claimed to
  make \<open>loadNotes\<close> report the error and end the process. The document \<open>{}\<close> is JSON and is
  not an array of note objects; \<open>loadNotes\<close> reports nothing and returns it as the note list,
  although it documents an array of notes as what it returns.
\<close>

theorem loadNotes_returns_unexpected_structure:
  "\<not> array_of_note_objects (JObj []) \<and>
   loadNotes (env0\<lparr>notes_file := Some (Parsed (JObj []))\<rparr>) =
     Return (JObj []) (env0\<lparr>notes_file := Some (Parsed (JObj []))\<rparr>)"
  by (simp add: array_of_note_objects_def loadNotes_def env0_def)

text \<open>
  C5. For a query that is not empty, \<open>findNoteByTitle\<close> returns the first note whose title
  equals the query case-insensitively when there is one; otherwise the first note, in the order
  of the list, whose title contains the query case-insensitively; otherwise nothing. After
  adding "Shopping" and then "Shopping List", the query "shopping" finds the note "Shopping".
\<close>

theorem findNoteByTitle_exact_then_first_substring:
  assumes "q \<noteq> []"
  shows "findNoteByTitle notes q = findByTitle_spec notes q \<and>
         (\<forall>i<length notes. ci_equal (title (notes ! i)) q \<and>
            (\<forall>j<i. \<not> ci_equal (title (notes ! j)) q) \<longrightarrow>
            findNoteByTitle notes q = Some (notes ! i)) \<and>
         ((\<forall>n\<in>set notes. \<not> ci_equal (title n) q) \<longrightarrow>
            (\<forall>i<length notes. ci_contains (title (notes ! i)) q \<and>
               (\<forall>j<i. \<not> ci_contains (title (notes ! j)) q) \<longrightarrow>
               findNoteByTitle notes q = Some (notes ! i))) \<and>
         ((\<forall>n\<in>set notes. \<not> ci_contains (title n) q) \<longrightarrow> findNoteByTitle notes q = None) \<and>
         (\<forall>a. ci_contains a q \<longleftrightarrow> (\<exists>u v. toLowerCase a = u @ toLowerCase q @ v)) \<and>
         (write_ok e \<and> stdin e = [''Shopping'', ''milk, eggs'', ''Shopping List'', ''bread''] \<longrightarrow>
            (\<exists>e'. then_do (addNote [] e) (\<lambda>notes1 e1.
                     then_do (addNote notes1 e1) (\<lambda>notes2 e2.
                       Return (findNoteByTitle notes2 ''shopping'') e2)) =
                   Return (Some \<lparr>title = ''Shopping'', body = ''milk, eggs'',
                                 time_added = now e\<rparr>) e'))"
proof (intro conjI allI impI)
  show "findNoteByTitle notes q = findByTitle_spec notes q"
    by (rule findNoteByTitle_spec)
next
  fix i
  assume "i < length notes"
    and "ci_equal (title (notes ! i)) q \<and> (\<forall>j<i. \<not> ci_equal (title (notes ! j)) q)"
  then show "findNoteByTitle notes q = Some (notes ! i)"
    by (simp add: findNoteByTitle_exact)
next
  fix i
  assume "\<forall>n\<in>set notes. \<not> ci_equal (title n) q" and "i < length notes"
    and "ci_contains (title (notes ! i)) q \<and> (\<forall>j<i. \<not> ci_contains (title (notes ! j)) q)"
  then show "findNoteByTitle notes q = Some (notes ! i)"
    by (simp add: findNoteByTitle_substring)
next
  assume "\<forall>n\<in>set notes. \<not> ci_contains (title n) q"
  then show "findNoteByTitle notes q = None" by (simp add: findNoteByTitle_None)
next
  fix a
  show "ci_contains a q \<longleftrightarrow> (\<exists>u v. toLowerCase a = u @ toLowerCase q @ v)"
    by (rule ci_contains_iff)
next
  assume a: "write_ok e \<and> stdin e = [''Shopping'', ''milk, eggs'', ''Shopping List'', ''bread'']"
  let ?n1 = "\<lparr>title = ''Shopping'', body = ''milk, eggs'', time_added = now e\<rparr>"
  let ?n2 = "\<lparr>title = ''Shopping List'', body = ''bread'', time_added = now e\<rparr>"
  let ?e1 = "e\<lparr>stdin := [''Shopping List'', ''bread''], console := console e @ [NoteAdded],
               notes_file := Some (Parsed (notes_json [?n1]))\<rparr>"
  have 1: "addNote [] e = Return [?n1] ?e1"
    using a addNote_adds [of e "[]" "''Shopping''" "[]" "''milk, eggs''" "[''Shopping List'', ''bread'']" "[]"]
    by (simp add: eval_strings)
  have "\<exists>e2. addNote [?n1] ?e1 = Return [?n1, ?n2] e2"
    using a addNote_adds [of ?e1 "[]" "''Shopping List''" "[]" "''bread''" "[]" "[?n1]"]
    by (simp add: eval_strings ci_equal_def)
  then obtain e2 where 2: "addNote [?n1] ?e1 = Return [?n1, ?n2] e2" by blast
  have 3: "findNoteByTitle [?n1, ?n2] ''shopping'' = Some ?n1"
    by (simp add: findNoteByTitle_def eval_strings)
  show "\<exists>e'. then_do (addNote [] e) (\<lambda>notes1 e1.
                     then_do (addNote notes1 e1) (\<lambda>notes2 e2.
                       Return (findNoteByTitle notes2 ''shopping'') e2)) =
                   Return (Some ?n1) e'"
    by (simp add: then_do_def 1 2 3)
qed

theorem findNoteByTitle_exact_then_first_substring_witness:
  "''shopping'' \<noteq> [] \<and>
   findNoteByTitle [note_shopping_list, note_shopping] ''shopping'' = Some note_shopping \<and>
   findNoteByTitle [note_shopping_list, note_trip_plan] ''shop'' = Some note_shopping_list \<and>
   findNoteByTitle [note_shopping_list, note_shopping] ''trip'' = None"
proof -
  have ne: "''shopping'' \<noteq> []" "''shop'' \<noteq> []" "''trip'' \<noteq> []" by simp_all
  have a: "findNoteByTitle [note_shopping_list, note_shopping] ''shopping'' = Some note_shopping"
    using findNoteByTitle_exact_then_first_substring
      [OF ne(1), of "[note_shopping_list, note_shopping]" env0, THEN conjunct2]
    by (simp add: example_defs eval_match less_Suc_eq)
  have b: "findNoteByTitle [note_shopping_list, note_trip_plan] ''shop'' = Some note_shopping_list"
    using findNoteByTitle_exact_then_first_substring
      [OF ne(2), of "[note_shopping_list, note_trip_plan]" env0, THEN conjunct2]
    by (simp add: example_defs eval_match less_Suc_eq)
  have c: "findNoteByTitle [note_shopping_list, note_shopping] ''trip'' = None"
    using findNoteByTitle_exact_then_first_substring
      [OF ne(3), of "[note_shopping_list, note_shopping]" env0, THEN conjunct2]
    by (simp add: example_defs eval_match)
  from ne(1) a b c show ?thesis by simp
qed

text \<open>
  C6. When the first line typed that is not blank is, trimmed, case-insensitively equal to the
  title of an existing note, \<open>addNote\<close> reports that the title exists and returns with the
  note list and the notes file unchanged.
\<close>

theorem addNote_duplicate_title_rejected:
  assumes "stdin e = blanks @ l # ls"
    and "\<forall>b\<in>set blanks. trim b = []" and "trim l \<noteq> []"
    and "\<exists>n\<in>set notes. ci_equal (title n) (trim l)"
  shows "\<exists>e'. addNote notes e = Return notes e' \<and> notes_file e' = notes_file e \<and>
              console e' = console e @ replicate (length blanks) TitleEmpty @
                           [TitleExists (trim l)]"
  using addNote_rejects [OF assms] by simp

theorem addNote_duplicate_title_rejected_witness:
  "\<exists>e'. addNote [note_shopping] (env0\<lparr>stdin := ['' '', ''  SHOPPING '', ''x'']\<rparr>) =
           Return [note_shopping] e' \<and>
         notes_file e' = None \<and> console e' = [TitleEmpty, TitleExists ''SHOPPING'']"
  using addNote_duplicate_title_rejected
    [of "env0\<lparr>stdin := ['' '', ''  SHOPPING '', ''x'']\<rparr>" "['' '']" "''  SHOPPING ''" "[''x'']"
        "[note_shopping]"]
  by (simp add: example_defs eval_trim)

text \<open>
  C7. No note list reachable from the empty one by \<open>addNote\<close>, \<open>updateNote\<close> and
  \<open>deleteNote\<close> has two case-insensitively equal titles, and each of the three operations
  keeps the titles of a list distinct.
\<close>

theorem reachable_unique_titles:
  "(reachable notes \<longrightarrow> unique_titles notes) \<and>
   (unique_titles notes \<and> addNote notes e = Return notes' e' \<longrightarrow> unique_titles notes') \<and>
   (unique_titles notes \<and> updateNote notes e = Return notes' e' \<longrightarrow> unique_titles notes') \<and>
   (unique_titles notes \<and> deleteNote notes e = Return notes' e' \<longrightarrow> unique_titles notes')"
proof (intro conjI impI)
  assume "reachable notes"
  then show "unique_titles notes"
  proof (induction rule: reachable.induct)
    case reachable_empty
    show ?case by (simp add: unique_titles_def)
  next
    case (reachable_add ns e ns' e')
    then show ?case by (simp add: addNote_unique_titles)
  next
    case (reachable_update ns e ns' e')
    then show ?case by (simp add: updateNote_unique_titles)
  next
    case (reachable_delete ns e ns' e')
    then show ?case by (simp add: deleteNote_unique_titles)
  qed
qed (auto intro: addNote_unique_titles updateNote_unique_titles deleteNote_unique_titles)

theorem reachable_unique_titles_witness:
  "reachable [note_shopping, note_shopping_list] \<and>
   unique_titles [note_shopping, note_shopping_list]"
proof -
  have 1: "addNote [] (env0\<lparr>stdin := [''Shopping'', ''milk, eggs'']\<rparr>) =
             Return [note_shopping]
               (env0\<lparr>console := [NoteAdded],
                     notes_file := Some (Parsed (notes_json [note_shopping]))\<rparr>)"
    by code_simp
  have 2: "addNote [note_shopping] (env0\<lparr>stdin := [''Shopping List'', ''bread'']\<rparr>) =
             Return [note_shopping, note_shopping_list]
               (env0\<lparr>console := [NoteAdded],
                     notes_file := Some (Parsed (notes_json [note_shopping, note_shopping_list]))\<rparr>)"
    by code_simp
  from 1 have "reachable [note_shopping]" using reachable_add [OF reachable_empty] by blast
  with 2 have r: "reachable [note_shopping, note_shopping_list]" using reachable_add by blast
  with reachable_unique_titles [of "[note_shopping, note_shopping_list]"] show ?thesis by simp
qed

text \<open>
  C8. When the title and the body typed are not blank, the trimmed title is not
  case-insensitively equal to an existing title and the file can be written, \<open>addNote\<close>
  appends the note, and \<open>findNoteByTitle\<close> with that title returns the note with the title and
  the body that were added.
\<close>

theorem addNote_then_findNoteByTitle:
  assumes "stdin e = blanks1 @ lt # blanks2 @ lb # rest"
    and "\<forall>b\<in>set blanks1. trim b = []" and "trim lt \<noteq> []"
    and "\<forall>b\<in>set blanks2. trim b = []" and "trim lb \<noteq> []"
    and "\<forall>n\<in>set notes. \<not> ci_equal (title n) (trim lt)"
    and "write_ok e"
  shows "\<exists>notes' e'. addNote notes e = Return notes' e' \<and>
           notes' = notes @ [\<lparr>title = trim lt, body = trim lb, time_added = now e\<rparr>] \<and>
           notes_file e' = Some (Parsed (notes_json notes')) \<and>
           findNoteByTitle notes' (trim lt) =
             Some \<lparr>title = trim lt, body = trim lb, time_added = now e\<rparr>"
proof -
  let ?new = "\<lparr>title = trim lt, body = trim lb, time_added = now e\<rparr>"
  let ?notes' = "notes @ [?new]"
  have "length notes < length ?notes'" by simp
  moreover have "ci_equal (title (?notes' ! length notes)) (trim lt)"
    by (simp add: ci_equal_def)
  moreover have "\<forall>j<length notes. \<not> ci_equal (title (?notes' ! j)) (trim lt)"
    using assms(6) by (simp add: nth_append)
  ultimately have "findNoteByTitle ?notes' (trim lt) = Some (?notes' ! length notes)"
    by (rule findNoteByTitle_exact)
  then show ?thesis using addNote_adds [OF assms] by simp
qed

theorem addNote_then_findNoteByTitle_witness:
  "\<exists>e'. addNote [note_shopping] (env0\<lparr>stdin := [''Trip Plan'', '' '', ''pack bags'']\<rparr>) =
           Return [note_shopping, note_trip_plan] e' \<and>
         findNoteByTitle [note_shopping, note_trip_plan] ''Trip Plan'' = Some note_trip_plan"
  using addNote_then_findNoteByTitle
    [of "env0\<lparr>stdin := [''Trip Plan'', '' '', ''pack bags'']\<rparr>" "[]" "''Trip Plan''" "['' '']"
        "''pack bags''" "[]" "[note_shopping]"]
  by (auto simp: example_defs eval_trim)

text \<open>
  C9. An \<open>updateNote\<close> that succeeds replaces the body of the note \<open>findNoteByTitle\<close> resolves
  and nothing else: that note keeps its title and time stamp, every other note is the same,
  and the list keeps its length and order.
\<close>

theorem updateNote_changes_only_the_body:
  assumes "stdin e = l1 # l2 # rest" and "trim l1 \<noteq> []" and "trim l2 \<noteq> []"
    and "findNoteByTitle_ref notes (trim l1) = Some i"
    and "write_ok e"
  shows "\<exists>notes' e'. updateNote notes e = Return notes' e' \<and>
           i < length notes \<and> findNoteByTitle notes (trim l1) = Some (notes ! i) \<and>
           length notes' = length notes \<and>
           body (notes' ! i) = trim l2 \<and>
           title (notes' ! i) = title (notes ! i) \<and>
           time_added (notes' ! i) = time_added (notes ! i) \<and>
           (\<forall>j<length notes. j \<noteq> i \<longrightarrow> notes' ! j = notes ! j) \<and>
           notes_file e' = Some (Parsed (notes_json notes'))"
proof -
  have i: "i < length notes" using assms(4) by (rule findNoteByTitle_ref_less)
  have "findNoteByTitle notes (trim l1) = Some (notes ! i)"
    using assms(4) by (simp add: findNoteByTitle_ref)
  then show ?thesis using updateNote_updates [OF assms] i by simp
qed

theorem updateNote_changes_only_the_body_witness:
  "\<exists>e'. updateNote [note_shopping_list, note_shopping]
           (env0\<lparr>stdin := [''shopping'', '' oat milk '']\<rparr>) =
         Return [note_shopping_list, note_shopping\<lparr>body := ''oat milk''\<rparr>] e'"
proof -
  have r: "findNoteByTitle_ref [note_shopping_list, note_shopping] ''shopping'' = Some 1"
    by code_simp
  show ?thesis
    using updateNote_changes_only_the_body
      [of "env0\<lparr>stdin := [''shopping'', '' oat milk '']\<rparr>" "''shopping''" "'' oat milk ''" "[]"
          "[note_shopping_list, note_shopping]" 1]
    by (auto simp: example_defs eval_trim r [unfolded example_defs] nth_equalityI less_Suc_eq
        list_eq_iff_nth_eq)
qed

text \<open>
  C10. Every line typed (menu choice, title, body, query) is used trimmed. A line that is not
  blank is taken as its trimmed text: the menu dispatches on the trimmed choice, the title
  prompt of the stand-alone script returns the trimmed title after reporting each blank line,
  \<open>addNote\<close> compares and stores the trimmed title and body, \<open>readNote\<close>, \<open>deleteNote\<close> and
  \<open>updateNote\<close> match the trimmed query, and \<open>updateNote\<close> stores the trimmed body. A line of
  white space only is rejected: as a menu choice it is invalid, as a title or body of
  \<open>addNote\<close> it is reported and asked again, as a query or a new body it is reported and the
  operation returns with the notes unchanged. The menu and the title prompt behave on the
  typed lines as on their trimmed copies. Hence the operations keep titles and bodies trimmed,
  and every note list reachable from the empty one has trimmed titles and bodies only.
\<close>

theorem inputs_trimmed_before_use:
  "menu_step notes (trim_stdin e) = on_env trim_stdin (menu_step notes e) \<and>
   getValidatedTitle (trim_stdin e) = on_env trim_stdin (getValidatedTitle e) \<and>
   (stdin e = l # ls \<and> trim l = [] \<longrightarrow>
      menu_step notes e =
        Return notes (e\<lparr>stdin := ls, console := console e @ [Menu, InvalidChoice]\<rparr>) \<and>
      addNote notes e = addNote notes (e\<lparr>stdin := ls, console := console e @ [TitleEmpty]\<rparr>) \<and>
      readNote notes e = Return () (e\<lparr>stdin := ls, console := console e @ [TitleInputEmpty]\<rparr>) \<and>
      deleteNote notes e =
        Return notes (e\<lparr>stdin := ls, console := console e @ [TitleInputEmpty]\<rparr>) \<and>
      updateNote notes e =
        Return notes (e\<lparr>stdin := ls, console := console e @ [TitleInputEmpty]\<rparr>) \<and>
      getValidatedTitle e =
        getValidatedTitle (e\<lparr>stdin := ls, console := console e @ [TitleEmptyRetry]\<rparr>)) \<and>
   (stdin e = l1 # l # ls \<and> trim l1 \<noteq> [] \<and> trim l = [] \<longrightarrow>
      ((\<forall>n\<in>set notes. \<not> ci_equal (title n) (trim l1)) \<longrightarrow>
         addNote notes e =
           addNote notes (e\<lparr>stdin := l1 # ls, console := console e @ [BodyEmpty]\<rparr>)) \<and>
      (findNoteByTitle notes (trim l1) \<noteq> None \<longrightarrow>
         updateNote notes e =
           Return notes (e\<lparr>stdin := ls, console := console e @ [BodyEmpty]\<rparr>))) \<and>
   (getValidatedTitle e = Return t e' \<longrightarrow> trimmed t) \<and>
   (all_trimmed notes \<and> addNote notes e = Return notes' e' \<longrightarrow> all_trimmed notes') \<and>
   (all_trimmed notes \<and> updateNote notes e = Return notes' e' \<longrightarrow> all_trimmed notes') \<and>
   (all_trimmed notes \<and> deleteNote notes e = Return notes' e' \<longrightarrow> all_trimmed notes') \<and>
   (reachable notes \<longrightarrow> all_trimmed notes) \<and>
   (stdin e = l # ls \<longrightarrow>
      (trim l = ''1'' \<longrightarrow> menu_step notes e = addNote notes ((log Menu e)\<lparr>stdin := ls\<rparr>)) \<and>
      (trim l = ''2'' \<longrightarrow>
         menu_step notes e =
           then_do (listAllNotes notes ((log Menu e)\<lparr>stdin := ls\<rparr>)) (\<lambda>u e2. Return notes e2)) \<and>
      (trim l = ''3'' \<longrightarrow>
         menu_step notes e =
           then_do (readNote notes ((log Menu e)\<lparr>stdin := ls\<rparr>)) (\<lambda>u e2. Return notes e2)) \<and>
      (trim l = ''4'' \<longrightarrow> menu_step notes e = deleteNote notes ((log Menu e)\<lparr>stdin := ls\<rparr>)) \<and>
      (trim l = ''5'' \<longrightarrow> menu_step notes e = updateNote notes ((log Menu e)\<lparr>stdin := ls\<rparr>)) \<and>
      (trim l = ''6'' \<longrightarrow>
         menu_step notes e = Exit 0 (e\<lparr>stdin := ls, console := console e @ [Menu, Goodbye]\<rparr>)) \<and>
      (trim l \<notin> set [''1'', ''2'', ''3'', ''4'', ''5'', ''6''] \<longrightarrow>
         menu_step notes e =
           Return notes (e\<lparr>stdin := ls, console := console e @ [Menu, InvalidChoice]\<rparr>))) \<and>
   (stdin e = blanks @ l # ls \<and> (\<forall>b\<in>set blanks. trim b = []) \<and> trim l \<noteq> [] \<longrightarrow>
      getValidatedTitle e =
        Return (trim l)
          (e\<lparr>stdin := ls, console := console e @ replicate (length blanks) TitleEmptyRetry\<rparr>) \<and>
      ((\<exists>n\<in>set notes. ci_equal (title n) (trim l)) \<longrightarrow>
         addNote notes e =
           Return notes
             (e\<lparr>stdin := ls,
                console := console e @ replicate (length blanks) TitleEmpty @
                           [TitleExists (trim l)]\<rparr>))) \<and>
   (stdin e = l # ls \<and> trim l \<noteq> [] \<longrightarrow>
      readNote notes e =
        Return () (e\<lparr>stdin := ls, console := console e @
           [case findNoteByTitle notes (trim l) of
              None \<Rightarrow> NoNoteFound (trim l) | Some n \<Rightarrow> ShowNote n]\<rparr>) \<and>
      ((\<forall>n\<in>set notes. \<not> ci_contains (title n) (trim l)) \<longrightarrow>
         deleteNote notes e =
           Return notes (e\<lparr>stdin := ls, console := console e @ [NoNoteFound (trim l)]\<rparr>)) \<and>
      (findIndex (\<lambda>n. ci_contains (title n) (trim l)) notes = Some i \<and> write_ok e \<longrightarrow>
         deleteNote notes e =
           Return (take i notes @ drop (Suc i) notes)
             (e\<lparr>stdin := ls,
                notes_file := Some (Parsed (notes_json (take i notes @ drop (Suc i) notes))),
                console := console e @ [NoteDeleted (title (notes ! i))]\<rparr>)) \<and>
      (findNoteByTitle notes (trim l) = None \<longrightarrow>
         updateNote notes e =
           Return notes (e\<lparr>stdin := ls, console := console e @ [NoNoteFound (trim l)]\<rparr>))) \<and>
   (stdin e = l1 # l2 # rest \<and> trim l1 \<noteq> [] \<and> trim l2 \<noteq> [] \<and> write_ok e \<longrightarrow>
      ((\<forall>n\<in>set notes. \<not> ci_equal (title n) (trim l1)) \<longrightarrow>
         addNote notes e =
           Return (notes @ [\<lparr>title = trim l1, body = trim l2, time_added = now e\<rparr>])
             (e\<lparr>stdin := rest, console := console e @ [NoteAdded],
                notes_file := Some (Parsed (notes_json
                  (notes @ [\<lparr>title = trim l1, body = trim l2, time_added = now e\<rparr>])))\<rparr>)) \<and>
      (findNoteByTitle_ref notes (trim l1) = Some i \<longrightarrow>
         updateNote notes e =
           Return (notes[i := (notes ! i)\<lparr>body := trim l2\<rparr>])
             (e\<lparr>stdin := rest,
                notes_file := Some (Parsed (notes_json (notes[i := (notes ! i)\<lparr>body := trim l2\<rparr>]))),
                console := console e @ [NoteUpdated]\<rparr>)))"
proof -
  have p0:
    "menu_step notes (trim_stdin e) = on_env trim_stdin (menu_step notes e)"
    by (rule menu_step_trim_stdin)
  have p1:
    "getValidatedTitle (trim_stdin e) = on_env trim_stdin (getValidatedTitle e)"
    by (simp add: getValidatedTitle_question_loop question_loop_trim_stdin)
  have p2:
    "stdin e = l # ls \<and> trim l = [] \<longrightarrow>
       menu_step notes e =
         Return notes (e\<lparr>stdin := ls, console := console e @ [Menu, InvalidChoice]\<rparr>) \<and>
       addNote notes e = addNote notes (e\<lparr>stdin := ls, console := console e @ [TitleEmpty]\<rparr>) \<and>
       readNote notes e = Return () (e\<lparr>stdin := ls, console := console e @ [TitleInputEmpty]\<rparr>) \<and>
       deleteNote notes e =
         Return notes (e\<lparr>stdin := ls, console := console e @ [TitleInputEmpty]\<rparr>) \<and>
       updateNote notes e =
         Return notes (e\<lparr>stdin := ls, console := console e @ [TitleInputEmpty]\<rparr>) \<and>
       getValidatedTitle e =
         getValidatedTitle (e\<lparr>stdin := ls, console := console e @ [TitleEmptyRetry]\<rparr>)"
    by (simp add: blank_line_rejected)
  have p3:
    "stdin e = l1 # l # ls \<and> trim l1 \<noteq> [] \<and> trim l = [] \<longrightarrow>
       ((\<forall>n\<in>set notes. \<not> ci_equal (title n) (trim l1)) \<longrightarrow>
          addNote notes e =
            addNote notes (e\<lparr>stdin := l1 # ls, console := console e @ [BodyEmpty]\<rparr>)) \<and>
       (findNoteByTitle notes (trim l1) \<noteq> None \<longrightarrow>
          updateNote notes e =
            Return notes (e\<lparr>stdin := ls, console := console e @ [BodyEmpty]\<rparr>))"
    by (simp add: blank_body_rejected)
  have p4:
    "getValidatedTitle e = Return t e' \<longrightarrow> trimmed t"
    unfolding getValidatedTitle_question_loop
    using question_loop_Return [of TitleEmptyRetry e t e'] trimmed_trim [of t]
    by metis
  have p5:
    "all_trimmed notes \<and> addNote notes e = Return notes' e' \<longrightarrow> all_trimmed notes'"
    using addNote_all_trimmed by blast
  have p6:
    "all_trimmed notes \<and> updateNote notes e = Return notes' e' \<longrightarrow> all_trimmed notes'"
    using updateNote_all_trimmed by blast
  have p7:
    "all_trimmed notes \<and> deleteNote notes e = Return notes' e' \<longrightarrow> all_trimmed notes'"
    using deleteNote_all_trimmed by blast
  have p8:
    "reachable notes \<longrightarrow> all_trimmed notes"
    using reachable_all_trimmed by blast
  have p9:
    "stdin e = l # ls \<longrightarrow>
       (trim l = ''1'' \<longrightarrow> menu_step notes e = addNote notes ((log Menu e)\<lparr>stdin := ls\<rparr>)) \<and>
       (trim l = ''2'' \<longrightarrow>
          menu_step notes e =
            then_do (listAllNotes notes ((log Menu e)\<lparr>stdin := ls\<rparr>)) (\<lambda>u e2. Return notes e2)) \<and>
       (trim l = ''3'' \<longrightarrow>
          menu_step notes e =
            then_do (readNote notes ((log Menu e)\<lparr>stdin := ls\<rparr>)) (\<lambda>u e2. Return notes e2)) \<and>
       (trim l = ''4'' \<longrightarrow> menu_step notes e = deleteNote notes ((log Menu e)\<lparr>stdin := ls\<rparr>)) \<and>
       (trim l = ''5'' \<longrightarrow> menu_step notes e = updateNote notes ((log Menu e)\<lparr>stdin := ls\<rparr>)) \<and>
       (trim l = ''6'' \<longrightarrow>
          menu_step notes e = Exit 0 (e\<lparr>stdin := ls, console := console e @ [Menu, Goodbye]\<rparr>)) \<and>
       (trim l \<notin> set [''1'', ''2'', ''3'', ''4'', ''5'', ''6''] \<longrightarrow>
          menu_step notes e =
            Return notes (e\<lparr>stdin := ls, console := console e @ [Menu, InvalidChoice]\<rparr>))"
    using menu_step_dispatch [of e l ls "notes"] by simp
  have p10:
    "stdin e = blanks @ l # ls \<and> (\<forall>b\<in>set blanks. trim b = []) \<and> trim l \<noteq> [] \<longrightarrow>
       getValidatedTitle e =
         Return (trim l)
           (e\<lparr>stdin := ls, console := console e @ replicate (length blanks) TitleEmptyRetry\<rparr>) \<and>
       ((\<exists>n\<in>set notes. ci_equal (title n) (trim l)) \<longrightarrow>
          addNote notes e =
            Return notes
              (e\<lparr>stdin := ls,
                 console := console e @ replicate (length blanks) TitleEmpty @
                            [TitleExists (trim l)]\<rparr>))"
    using getValidatedTitle_returns [of e blanks l ls] addNote_rejects [of e blanks l ls "notes"]
    by simp
  have p11:
    "stdin e = l # ls \<and> trim l \<noteq> [] \<longrightarrow>
       readNote notes e =
         Return () (e\<lparr>stdin := ls, console := console e @
            [case findNoteByTitle notes (trim l) of
               None \<Rightarrow> NoNoteFound (trim l) | Some n \<Rightarrow> ShowNote n]\<rparr>) \<and>
       ((\<forall>n\<in>set notes. \<not> ci_contains (title n) (trim l)) \<longrightarrow>
          deleteNote notes e =
            Return notes (e\<lparr>stdin := ls, console := console e @ [NoNoteFound (trim l)]\<rparr>)) \<and>
       (findIndex (\<lambda>n. ci_contains (title n) (trim l)) notes = Some i \<and> write_ok e \<longrightarrow>
          deleteNote notes e =
            Return (take i notes @ drop (Suc i) notes)
              (e\<lparr>stdin := ls,
                 notes_file := Some (Parsed (notes_json (take i notes @ drop (Suc i) notes))),
                 console := console e @ [NoteDeleted (title (notes ! i))]\<rparr>)) \<and>
       (findNoteByTitle notes (trim l) = None \<longrightarrow>
          updateNote notes e =
            Return notes (e\<lparr>stdin := ls, console := console e @ [NoNoteFound (trim l)]\<rparr>))"
    using readNote_reads [of e l ls "notes"] deleteNote_not_found [of e l ls "notes"]
      deleteNote_deletes [of e l ls "notes" i] updateNote_not_found [of e l ls "notes"]
    by simp
  have p12:
    "stdin e = l1 # l2 # rest \<and> trim l1 \<noteq> [] \<and> trim l2 \<noteq> [] \<and> write_ok e \<longrightarrow>
       ((\<forall>n\<in>set notes. \<not> ci_equal (title n) (trim l1)) \<longrightarrow>
          addNote notes e =
            Return (notes @ [\<lparr>title = trim l1, body = trim l2, time_added = now e\<rparr>])
              (e\<lparr>stdin := rest, console := console e @ [NoteAdded],
                 notes_file := Some (Parsed (notes_json
                   (notes @ [\<lparr>title = trim l1, body = trim l2, time_added = now e\<rparr>])))\<rparr>)) \<and>
       (findNoteByTitle_ref notes (trim l1) = Some i \<longrightarrow>
          updateNote notes e =
            Return (notes[i := (notes ! i)\<lparr>body := trim l2\<rparr>])
              (e\<lparr>stdin := rest,
                 notes_file := Some (Parsed (notes_json (notes[i := (notes ! i)\<lparr>body := trim l2\<rparr>]))),
                 console := console e @ [NoteUpdated]\<rparr>))"
    using addNote_adds [of e "[]" l1 "[]" l2 rest "notes"] updateNote_updates [of e l1 l2 rest "notes" i]
    by simp
  show ?thesis
    by (intro conjI p0 p1 p2 p3 p4 p5 p6 p7 p8 p9 p10 p11 p12)
qed

theorem inputs_trimmed_before_use_witness:
  "menu_step [note_shopping] (env0\<lparr>stdin := [''   '']\<rparr>) =
     Return [note_shopping] (env0\<lparr>stdin := [], console := [Menu, InvalidChoice]\<rparr>) \<and>
   updateNote [note_shopping] (env0\<lparr>stdin := [''shop'', ''   '']\<rparr>) =
     Return [note_shopping] (env0\<lparr>stdin := [], console := [BodyEmpty]\<rparr>) \<and>
   reachable [note_shopping] \<and> all_trimmed [note_shopping] \<and>
   menu_step [note_shopping, note_trip_plan] (env0\<lparr>stdin := ['' 4 '', '' trip '']\<rparr>) =
     Return [note_shopping]
       (env0\<lparr>stdin := [], console := [Menu, NoteDeleted ''Trip Plan''],
             notes_file := Some (Parsed (notes_json [note_shopping]))\<rparr>) \<and>
   getValidatedTitle (env0\<lparr>stdin := [''   '', '' Trip Plan '']\<rparr>) =
     Return ''Trip Plan'' (env0\<lparr>stdin := [], console := [TitleEmptyRetry]\<rparr>) \<and>
   addNote [note_shopping] (env0\<lparr>stdin := ['' Trip Plan '', '' pack bags '']\<rparr>) =
     Return [note_shopping, note_trip_plan]
       (env0\<lparr>stdin := [], console := [NoteAdded],
             notes_file := Some (Parsed (notes_json [note_shopping, note_trip_plan]))\<rparr>)"
proof -
  have a: "addNote [] (env0\<lparr>stdin := [''Shopping'', ''milk, eggs'']\<rparr>) =
             Return [note_shopping]
               (env0\<lparr>console := [NoteAdded],
                     notes_file := Some (Parsed (notes_json [note_shopping]))\<rparr>)"
    by code_simp
  have r: "reachable [note_shopping]" using reachable_add [OF reachable_empty a] .
  have f: "findNoteByTitle [note_shopping] ''shop'' = Some note_shopping" by code_simp
  have 1: "menu_step [note_shopping] (env0\<lparr>stdin := [''   '']\<rparr>) =
             Return [note_shopping] (env0\<lparr>stdin := [], console := [Menu, InvalidChoice]\<rparr>)"
    using inputs_trimmed_before_use
      [of "[note_shopping]" "env0\<lparr>stdin := [''   '']\<rparr>" "''   ''" "[]",
          THEN conjunct2, THEN conjunct2, THEN conjunct1]
    by (simp add: eval_trim env0_def)
  have 2: "updateNote [note_shopping] (env0\<lparr>stdin := [''shop'', ''   '']\<rparr>) =
             Return [note_shopping] (env0\<lparr>stdin := [], console := [BodyEmpty]\<rparr>)"
    using inputs_trimmed_before_use
      [of "[note_shopping]" "env0\<lparr>stdin := [''shop'', ''   '']\<rparr>" "''   ''" "[]" "''shop''",
          THEN conjunct2, THEN conjunct2, THEN conjunct2, THEN conjunct1] f
    by (simp add: eval_trim env0_def)
  have 3: "all_trimmed [note_shopping]"
    using inputs_trimmed_before_use [of "[note_shopping]",
          THEN conjunct2, THEN conjunct2, THEN conjunct2, THEN conjunct2, THEN conjunct2, THEN conjunct2, THEN conjunct2, THEN conjunct2, THEN conjunct1] r
    by simp
  let ?e4 = "env0\<lparr>stdin := ['' 4 '', '' trip '']\<rparr>"
  have 4: "menu_step [note_shopping, note_trip_plan] ?e4 =
             deleteNote [note_shopping, note_trip_plan] ((log Menu ?e4)\<lparr>stdin := ['' trip '']\<rparr>)"
    using inputs_trimmed_before_use
      [of "[note_shopping, note_trip_plan]" ?e4 "'' 4 ''" "['' trip '']",
          THEN conjunct2, THEN conjunct2, THEN conjunct2, THEN conjunct2, THEN conjunct2, THEN conjunct2, THEN conjunct2, THEN conjunct2, THEN conjunct2, THEN conjunct1]
    by (simp add: eval_padded env0_def)
  have 5: "deleteNote [note_shopping, note_trip_plan] ((log Menu ?e4)\<lparr>stdin := ['' trip '']\<rparr>) =
             Return [note_shopping]
               (env0\<lparr>stdin := [], console := [Menu, NoteDeleted ''Trip Plan''],
                     notes_file := Some (Parsed (notes_json [note_shopping]))\<rparr>)"
    using inputs_trimmed_before_use
      [of "[note_shopping, note_trip_plan]" "(log Menu ?e4)\<lparr>stdin := ['' trip '']\<rparr>"
          "'' trip ''" "[]" _ _ _ _ _ 1,
          THEN conjunct2, THEN conjunct2, THEN conjunct2, THEN conjunct2, THEN conjunct2, THEN conjunct2, THEN conjunct2, THEN conjunct2, THEN conjunct2, THEN conjunct2, THEN conjunct2, THEN conjunct1]
    by (simp add: eval_trim eval_match example_defs log_def)
  have 6: "getValidatedTitle (env0\<lparr>stdin := [''   '', '' Trip Plan '']\<rparr>) =
             Return ''Trip Plan'' (env0\<lparr>stdin := [], console := [TitleEmptyRetry]\<rparr>)"
    using inputs_trimmed_before_use
      [of _ "env0\<lparr>stdin := [''   '', '' Trip Plan '']\<rparr>" "'' Trip Plan ''" "[]" _ _ _ _ "[''   '']",
          THEN conjunct2, THEN conjunct2, THEN conjunct2, THEN conjunct2, THEN conjunct2, THEN conjunct2, THEN conjunct2, THEN conjunct2, THEN conjunct2, THEN conjunct2, THEN conjunct1]
    by (simp add: eval_trim eval_padded env0_def)
  have 7: "addNote [note_shopping] (env0\<lparr>stdin := ['' Trip Plan '', '' pack bags '']\<rparr>) =
             Return [note_shopping, note_trip_plan]
               (env0\<lparr>stdin := [], console := [NoteAdded],
                     notes_file := Some (Parsed (notes_json [note_shopping, note_trip_plan]))\<rparr>)"
    using inputs_trimmed_before_use
      [of "[note_shopping]" "env0\<lparr>stdin := ['' Trip Plan '', '' pack bags '']\<rparr>" _ _
          "'' Trip Plan ''" _ _ _ _ _ "'' pack bags ''" "[]",
          THEN conjunct2, THEN conjunct2, THEN conjunct2, THEN conjunct2, THEN conjunct2, THEN conjunct2, THEN conjunct2, THEN conjunct2, THEN conjunct2, THEN conjunct2, THEN conjunct2, THEN conjunct2]
    by (simp add: eval_trim eval_padded example_defs)
  from 1 2 r 3 4 5 6 7 show ?thesis by simp
qed

end
